theory Spec2Isabelle
  imports Complex_Main "HOL-Library.Multiset"
begin

section \<open>The aspect-ratio-preserving layout engine of the wallpaper creator\<close>

text \<open>
  The definitions below follow the layout methods of class \<open>WallpaperCreator\<close> in
  \<^verbatim>\<open>src/app.js\<close> (lines 313 to 836), function by function and under the source's names.

  Numbers: a JavaScript number is modelled as a \<^typ>\<open>real\<close>, so arithmetic is exact: no
  rounding, and no \<open>Infinity\<close> or \<open>NaN\<close>. The model and the code therefore agree (up to
  rounding) wherever the code divides by a non-zero number; where the code would divide by
  zero, HOL's \<open>x / 0 = 0\<close> is not what IEEE arithmetic gives. Counts and indices
  (\<open>images.length\<close>, \<open>columnCount\<close>, \<open>cols\<close>, \<open>rows\<close>, loop indices) are natural numbers.
\<close>

subsection \<open>Data\<close>

text \<open>An uploaded image (\<open>loadImage\<close>): only the fields the layout engine reads.\<close>

record image =
  image_id :: nat
  originalWidth :: real
  originalHeight :: real

text \<open>
  An entry of \<open>aspectRatioCategories\<close>. The two objects that \<open>categorizeByAspectRatio\<close>
  returns when no entry matches have a name and a group only.
\<close>

record category =
  cat_name :: string
  cat_ratio :: "real option"
  cat_tolerance :: "real option"
  cat_group :: string

record settings =
  spacing :: real
  margin :: real
  maintainRatio :: bool
  fillCanvas :: bool
  allowStacking :: bool
  minImageSize :: real
  maxScaleDown :: real
  stackDirection :: string
  balanceComposition :: bool
  prioritizeLargeImages :: bool

text \<open>The fields of the \<open>WallpaperCreator\<close> object that the layout engine reads.\<close>

record creator =
  autoFitSettings :: settings
  canvasWidth :: real
  canvasHeight :: real
  aspectRatioCategories :: "category list"
  images :: "image list"
  selectedImages :: "nat set"
  currentLayout :: "string option"

text \<open>The object \<open>{ width, height }\<close>.\<close>

record dimensions =
  dim_width :: real
  dim_height :: real

text \<open>An element of a \<open>positions\<close> array: \<open>{ imageData, x, y, width, height }\<close>.\<close>

record position =
  imageData :: image
  pos_x :: real
  pos_y :: real
  pos_width :: real
  pos_height :: real

text \<open>An element of \<open>rowImages\<close> in \<open>applyNaturalFlowLayout\<close>.\<close>

record row_item =
  item_image :: image
  item_aspectRatio :: real
  naturalWidth :: real
  naturalHeight :: real
  item_x :: real
  item_y :: real

text \<open>The values the constructor assigns.\<close>

definition default_settings :: settings where
  "default_settings =
     \<lparr>spacing = 10, margin = 20, maintainRatio = True, fillCanvas = False,
      allowStacking = True, minImageSize = 100, maxScaleDown = 0.3,
      stackDirection = ''auto'', balanceComposition = True,
      prioritizeLargeImages = False\<rparr>"

definition default_categories :: "category list" where
  "default_categories =
     [\<lparr>cat_name = ''Square'', cat_ratio = Some 1.0, cat_tolerance = Some 0.05, cat_group = ''square''\<rparr>,
      \<lparr>cat_name = ''Portrait'', cat_ratio = Some 0.75, cat_tolerance = Some 0.15, cat_group = ''portrait''\<rparr>,
      \<lparr>cat_name = ''Landscape'', cat_ratio = Some 1.33, cat_tolerance = Some 0.15, cat_group = ''landscape''\<rparr>,
      \<lparr>cat_name = ''Wide'', cat_ratio = Some 1.78, cat_tolerance = Some 0.2, cat_group = ''wide''\<rparr>,
      \<lparr>cat_name = ''Panoramic'', cat_ratio = Some 2.5, cat_tolerance = Some 0.5, cat_group = ''panoramic''\<rparr>,
      \<lparr>cat_name = ''Ultra-wide'', cat_ratio = Some 3.5, cat_tolerance = Some 1.0, cat_group = ''ultrawide''\<rparr>]"

definition new_creator :: creator where
  "new_creator =
     \<lparr>autoFitSettings = default_settings, canvasWidth = 1920, canvasHeight = 1080,
      aspectRatioCategories = default_categories, images = [], selectedImages = {},
      currentLayout = None\<rparr>"

subsection \<open>Aspect ratio preservation methods\<close>

definition calculateAspectRatio :: "image \<Rightarrow> real" where
  "calculateAspectRatio img = originalWidth img / originalHeight img"

definition category_matches :: "real \<Rightarrow> category \<Rightarrow> bool" where
  "category_matches ratio category =
     (case (cat_ratio category, cat_tolerance category) of
        (Some r, Some t) \<Rightarrow> \<bar>ratio - r\<bar> \<le> t
      | _ \<Rightarrow> False)"

definition categorizeByAspectRatio :: "creator \<Rightarrow> image \<Rightarrow> category" where
  "categorizeByAspectRatio st img =
     (let ratio = calculateAspectRatio img in
      case find (category_matches ratio) (aspectRatioCategories st) of
        Some category \<Rightarrow> category
      | None \<Rightarrow>
          if ratio > 1
          then \<lparr>cat_name = ''Landscape'', cat_ratio = None, cat_tolerance = None, cat_group = ''landscape''\<rparr>
          else \<lparr>cat_name = ''Portrait'', cat_ratio = None, cat_tolerance = None, cat_group = ''portrait''\<rparr>)"

text \<open>
  The object \<open>groups\<close>: its keys are kept in insertion order, which is the order in which
  \<open>Object.keys\<close> lists them (none of the group names is an integer index).
\<close>

fun push_group :: "string \<Rightarrow> image \<Rightarrow> (string \<times> image list) list \<Rightarrow> (string \<times> image list) list" where
  "push_group g img [] = [(g, [img])]"
| "push_group g img ((k, v) # groups) =
     (if k = g then (k, v @ [img]) # groups else (k, v) # push_group g img groups)"

definition groupImagesByAspectRatio :: "creator \<Rightarrow> image list \<Rightarrow> (string \<times> image list) list" where
  "groupImagesByAspectRatio st imgs =
     foldl (\<lambda>groups img. push_group (cat_group (categorizeByAspectRatio st img)) img groups)
       [] imgs"

definition validateAspectRatioPreservation :: "image \<Rightarrow> dimensions \<Rightarrow> bool" where
  "validateAspectRatioPreservation originalImage proposedDimensions =
     (let originalRatio = calculateAspectRatio originalImage;
          proposedRatio = dim_width proposedDimensions / dim_height proposedDimensions;
          tolerance = 0.01
      in \<bar>originalRatio - proposedRatio\<bar> \<le> tolerance)"

definition scaleImagePreservingRatio :: "creator \<Rightarrow> image \<Rightarrow> real \<Rightarrow> real \<Rightarrow> dimensions" where
  "scaleImagePreservingRatio st originalImage maxWidth maxHeight =
     (let aspectRatio = calculateAspectRatio originalImage;
          (width, height) =
             (if maxWidth / maxHeight > aspectRatio
              then (maxHeight * aspectRatio, maxHeight)
              else (maxWidth, maxWidth / aspectRatio));
          minSize = minImageSize (autoFitSettings st)
      in if width < minSize \<or> height < minSize
         then (if width < height
               then \<lparr>dim_width = minSize, dim_height = minSize / aspectRatio\<rparr>
               else \<lparr>dim_width = minSize * aspectRatio, dim_height = minSize\<rparr>)
         else \<lparr>dim_width = width, dim_height = height\<rparr>)"

subsection \<open>Natural layout algorithms\<close>

text \<open>
  \<open>[...images].sort((a, b) => b.area - a.area)\<close> when \<open>prioritizeLargeImages\<close> is set: a
  stable sort by descending area, that is an insertion sort on the negated area.
\<close>

definition sortedImages :: "creator \<Rightarrow> image list \<Rightarrow> image list" where
  "sortedImages st imgs =
     (if prioritizeLargeImages (autoFitSettings st)
      then sort_key (\<lambda>a. - (originalWidth a * originalHeight a)) imgs
      else imgs)"

text \<open>The body of \<open>rowImages.forEach\<close> in \<open>finalizeNaturalRow\<close>, on \<open>(currentX, positions)\<close>.\<close>

definition place_item :: "creator \<Rightarrow> real \<Rightarrow> real \<Rightarrow> real \<times> position list \<Rightarrow> row_item \<Rightarrow> real \<times> position list" where
  "place_item st finalScaleFactor rowY s item =
     (let currentX = fst s; positions = snd s;
          finalWidth = naturalWidth item * finalScaleFactor;
          finalHeight = naturalHeight item * finalScaleFactor
      in (currentX + finalWidth + spacing (autoFitSettings st),
          positions @
            [\<lparr>imageData = item_image item, pos_x = currentX, pos_y = rowY,
              pos_width = max (minImageSize (autoFitSettings st)) finalWidth,
              pos_height = max (minImageSize (autoFitSettings st)) finalHeight\<rparr>]))"

definition finalizeNaturalRow :: "creator \<Rightarrow> row_item list \<Rightarrow> real \<Rightarrow> real \<Rightarrow> position list \<Rightarrow> position list" where
  "finalizeNaturalRow st rowImages rowY availableWidth positions =
     (if rowImages = [] then positions
      else
        let totalNaturalWidth = foldl (\<lambda>acc item. acc + naturalWidth item) 0 rowImages;
            totalSpacing = (real (length rowImages) - 1) * spacing (autoFitSettings st);
            availableImageWidth = availableWidth - totalSpacing;
            scaleFactor = min 1 (availableImageWidth / totalNaturalWidth);
            finalScaleFactor = max (maxScaleDown (autoFitSettings st)) scaleFactor
        in snd (foldl (place_item st finalScaleFactor rowY)
                  (margin (autoFitSettings st), positions) rowImages))"

text \<open>The variables of the loop of \<open>applyNaturalFlowLayout\<close>.\<close>

record flow_state =
  fs_positions :: "position list"
  currentRowY :: real
  currentRowX :: real
  currentRowHeight :: real
  rowImages :: "row_item list"

definition flow_step :: "creator \<Rightarrow> flow_state \<Rightarrow> image \<Rightarrow> flow_state" where
  "flow_step st s img =
     (let mg = margin (autoFitSettings st); sp = spacing (autoFitSettings st);
          availableWidth = canvasWidth st - 2 * mg;
          aspectRatio = calculateAspectRatio img;
          imageWidth = min (originalWidth img) (availableWidth * 0.3);
          imageHeight = imageWidth / aspectRatio;
          s1 = (if currentRowX s + imageWidth > availableWidth + mg \<and> rowImages s \<noteq> []
                then \<lparr>fs_positions =
                        finalizeNaturalRow st (rowImages s) (currentRowY s) availableWidth (fs_positions s),
                      currentRowY = currentRowY s + (currentRowHeight s + sp),
                      currentRowX = mg, currentRowHeight = 0, rowImages = []\<rparr>
                else s)
      in \<lparr>fs_positions = fs_positions s1,
          currentRowY = currentRowY s1,
          currentRowX = currentRowX s1 + (imageWidth + sp),
          currentRowHeight = max (currentRowHeight s1) imageHeight,
          rowImages = rowImages s1 @
            [\<lparr>item_image = img, item_aspectRatio = aspectRatio, naturalWidth = imageWidth,
              naturalHeight = imageHeight, item_x = currentRowX s1, item_y = currentRowY s1\<rparr>]\<rparr>)"

definition applyNaturalFlowLayout :: "creator \<Rightarrow> image list \<Rightarrow> position list" where
  "applyNaturalFlowLayout st imgs =
     (let mg = margin (autoFitSettings st);
          availableWidth = canvasWidth st - 2 * mg;
          s = foldl (flow_step st)
                \<lparr>fs_positions = [], currentRowY = mg, currentRowX = mg, currentRowHeight = 0,
                 rowImages = []\<rparr>
                (sortedImages st imgs)
      in if rowImages s \<noteq> []
         then finalizeNaturalRow st (rowImages s) (currentRowY s) availableWidth (fs_positions s)
         else fs_positions s)"

text \<open>\<open>Math.max(2, Math.min(5, Math.ceil(Math.sqrt(images.length))))\<close>\<close>

definition columnCount :: "image list \<Rightarrow> nat" where
  "columnCount imgs = max 2 (min 5 (nat \<lceil>sqrt (real (length imgs))\<rceil>))"

definition columnWidth :: "creator \<Rightarrow> image list \<Rightarrow> real" where
  "columnWidth st imgs =
     (let availableWidth = canvasWidth st - 2 * margin (autoFitSettings st)
      in (availableWidth - (real (columnCount imgs) - 1) * spacing (autoFitSettings st))
           / real (columnCount imgs))"

text \<open>
  The search for the shortest column: the \<open>for\<close> loop from 1 below \<open>columnCount\<close> on
  \<open>(shortestColumn, shortestHeight)\<close>, started at \<open>(0, columnHeights[0])\<close>.
\<close>

definition shortest :: "real list \<Rightarrow> nat \<Rightarrow> nat \<times> real" where
  "shortest columnHeights n =
     foldl (\<lambda>(shortestColumn, shortestHeight) i.
              if columnHeights ! i < shortestHeight then (i, columnHeights ! i)
              else (shortestColumn, shortestHeight))
       (0, columnHeights ! 0) [1..<n]"

text \<open>The body of \<open>sortedImages.forEach\<close> in \<open>applyMasonryLayout\<close>, on \<open>(columnHeights, positions)\<close>.\<close>

definition masonry_step :: "creator \<Rightarrow> nat \<Rightarrow> real \<Rightarrow> real list \<times> position list \<Rightarrow> image \<Rightarrow> real list \<times> position list" where
  "masonry_step st n colWidth s img =
     (let columnHeights = fst s; positions = snd s;
          shortestColumn = fst (shortest columnHeights n);
          scaledDimensions = scaleImagePreservingRatio st img colWidth (colWidth * 2);
          x = margin (autoFitSettings st) + real shortestColumn * (colWidth + spacing (autoFitSettings st));
          y = columnHeights ! shortestColumn
      in (columnHeights[shortestColumn :=
            columnHeights ! shortestColumn + (dim_height scaledDimensions + spacing (autoFitSettings st))],
          positions @
            [\<lparr>imageData = img, pos_x = x, pos_y = y,
              pos_width = dim_width scaledDimensions,
              pos_height = dim_height scaledDimensions\<rparr>]))"

text \<open>
  The loop of \<open>applyMasonryLayout\<close> after the images \<open>placed\<close>, a prefix of the sorted
  images; the number and the width of the columns come from the whole list \<open>imgs\<close>.
\<close>

definition masonry_run :: "creator \<Rightarrow> image list \<Rightarrow> image list \<Rightarrow> real list \<times> position list" where
  "masonry_run st imgs placed =
     foldl (masonry_step st (columnCount imgs) (columnWidth st imgs))
       (replicate (columnCount imgs) (margin (autoFitSettings st)), []) placed"

definition applyMasonryLayout :: "creator \<Rightarrow> image list \<Rightarrow> position list" where
  "applyMasonryLayout st imgs = snd (masonry_run st imgs (sortedImages st imgs))"

text \<open>The array \<open>columnHeights\<close> when \<open>applyMasonryLayout\<close> returns.\<close>

definition masonryColumnHeights :: "creator \<Rightarrow> image list \<Rightarrow> real list" where
  "masonryColumnHeights st imgs = fst (masonry_run st imgs (sortedImages st imgs))"

definition gridCols :: "image list \<Rightarrow> nat" where
  "gridCols imgs = nat \<lceil>sqrt (real (length imgs))\<rceil>"

definition gridRows :: "image list \<Rightarrow> nat" where
  "gridRows imgs = nat \<lceil>real (length imgs) / real (gridCols imgs)\<rceil>"

definition baseGridWidth :: "creator \<Rightarrow> image list \<Rightarrow> real" where
  "baseGridWidth st imgs =
     (let availableWidth = canvasWidth st - 2 * margin (autoFitSettings st)
      in (availableWidth - (real (gridCols imgs) - 1) * spacing (autoFitSettings st))
           / real (gridCols imgs))"

definition baseGridHeight :: "creator \<Rightarrow> image list \<Rightarrow> real" where
  "baseGridHeight st imgs =
     (let availableHeight = canvasHeight st - 2 * margin (autoFitSettings st)
      in (availableHeight - (real (gridRows imgs) - 1) * spacing (autoFitSettings st))
           / real (gridRows imgs))"

text \<open>The body of the \<open>for\<close> loop of \<open>applyProportionalGridLayout\<close> at index \<open>i\<close>.\<close>

definition grid_cell :: "creator \<Rightarrow> image list \<Rightarrow> nat \<Rightarrow> position" where
  "grid_cell st imgs i =
     (let img = imgs ! i;
          row = i div gridCols imgs;
          col = i mod gridCols imgs;
          gridX = margin (autoFitSettings st) + real col * (baseGridWidth st imgs + spacing (autoFitSettings st));
          gridY = margin (autoFitSettings st) + real row * (baseGridHeight st imgs + spacing (autoFitSettings st));
          scaledDimensions = scaleImagePreservingRatio st img (baseGridWidth st imgs) (baseGridHeight st imgs);
          x = gridX + (baseGridWidth st imgs - dim_width scaledDimensions) / 2;
          y = gridY + (baseGridHeight st imgs - dim_height scaledDimensions) / 2
      in \<lparr>imageData = img, pos_x = x, pos_y = y,
          pos_width = dim_width scaledDimensions, pos_height = dim_height scaledDimensions\<rparr>)"

definition applyProportionalGridLayout :: "creator \<Rightarrow> image list \<Rightarrow> position list" where
  "applyProportionalGridLayout st imgs = map (grid_cell st imgs) [0..<length imgs]"

text \<open>
  The body of \<open>Object.keys(groups).forEach\<close> in \<open>applyAspectGroupedLayout\<close>, on
  \<open>(currentY, positions)\<close>. Every group holds at least one image and the flow layout places
  every image, so \<open>groupPositions\<close> is never empty there; \<open>Math.min\<close> and \<open>Math.max\<close> of its
  elements are folds from the first one.
\<close>

definition group_step :: "creator \<Rightarrow> real \<times> position list \<Rightarrow> string \<times> image list \<Rightarrow> real \<times> position list" where
  "group_step st s grp =
     (let currentY = fst s; positions = snd s;
          groupPositions = applyNaturalFlowLayout st (snd grp)
      in case groupPositions of
           [] \<Rightarrow> s
         | p # ps \<Rightarrow>
             let minY = foldl min (pos_y p) (map pos_y ps);
                 maxY = foldl max (pos_y p + pos_height p) (map (\<lambda>pos. pos_y pos + pos_height pos) ps);
                 groupHeight = maxY - minY
             in (currentY + (groupHeight + spacing (autoFitSettings st) * 2),
                 positions @ map (\<lambda>pos. pos\<lparr>pos_y := pos_y pos - minY + currentY\<rparr>) groupPositions))"

definition applyAspectGroupedLayout :: "creator \<Rightarrow> image list \<Rightarrow> position list" where
  "applyAspectGroupedLayout st imgs =
     snd (foldl (group_step st) (margin (autoFitSettings st), []) (groupImagesByAspectRatio st imgs))"

text \<open>
  \<open>Math.random\<close> is a sequence \<open>rand\<close> of numbers, of which the \<open>k\<close>-th call returns
  \<open>rand k\<close>. The body of \<open>masonryPositions.forEach\<close> in \<open>applyOrganicStackLayout\<close> acts on
  \<open>(index, number of calls made, positions)\<close>.
\<close>

definition organic_step :: "creator \<Rightarrow> (nat \<Rightarrow> real) \<Rightarrow> nat \<times> nat \<times> position list \<Rightarrow> position \<Rightarrow> nat \<times> nat \<times> position list" where
  "organic_step st rand s pos =
     (let index = fst s; calls = fst (snd s); positions = snd (snd s);
          mg = margin (autoFitSettings st) in
      if allowStacking (autoFitSettings st) \<and> index > 0
      then
        let maxOffset = spacing (autoFitSettings st) * 0.5;
            x1 = pos_x pos + (rand calls - 0.5) * maxOffset;
            y1 = pos_y pos + (rand (calls + 1) - 0.5) * maxOffset;
            x2 = max mg (min x1 (canvasWidth st - pos_width pos - mg));
            y2 = max mg (min y1 (canvasHeight st - pos_height pos - mg))
        in (index + 1, calls + 2, positions @ [pos\<lparr>pos_x := x2, pos_y := y2\<rparr>])
      else (index + 1, calls, positions @ [pos]))"

text \<open>The loop of \<open>applyOrganicStackLayout\<close> over the masonry placements.\<close>

definition organic_run :: "creator \<Rightarrow> (nat \<Rightarrow> real) \<Rightarrow> position list \<Rightarrow> nat \<times> nat \<times> position list" where
  "organic_run st rand masonryPositions = foldl (organic_step st rand) (0, 0, []) masonryPositions"

definition applyOrganicStackLayout :: "creator \<Rightarrow> (nat \<Rightarrow> real) \<Rightarrow> image list \<Rightarrow> position list" where
  "applyOrganicStackLayout st rand imgs =
     snd (snd (organic_run st rand (applyMasonryLayout st imgs)))"

subsection \<open>The orchestrator\<close>

text \<open>
  \<open>applyNaturalAutoFitLayout\<close> returns early (\<open>None\<close>) when no layout is chosen or nothing is
  selected; otherwise the result is the array it hands to \<open>applyPositionsToCanvas\<close>.
\<close>

definition selectedImageData :: "creator \<Rightarrow> image list" where
  "selectedImageData st = filter (\<lambda>img. image_id img \<in> selectedImages st) (images st)"

definition run_layout :: "creator \<Rightarrow> (nat \<Rightarrow> real) \<Rightarrow> string \<Rightarrow> image list \<Rightarrow> position list" where
  "run_layout st rand layout imgs =
     (if layout = ''natural-flow'' then applyNaturalFlowLayout st imgs
      else if layout = ''masonry'' then applyMasonryLayout st imgs
      else if layout = ''proportional-grid'' then applyProportionalGridLayout st imgs
      else if layout = ''aspect-grouped'' then applyAspectGroupedLayout st imgs
      else if layout = ''organic'' then applyOrganicStackLayout st rand imgs
      else applyNaturalFlowLayout st imgs)"

definition validationResults :: "position list \<Rightarrow> bool list" where
  "validationResults positions =
     map (\<lambda>pos. validateAspectRatioPreservation (imageData pos)
                  \<lparr>dim_width = pos_width pos, dim_height = pos_height pos\<rparr>) positions"

definition applyNaturalAutoFitLayout :: "creator \<Rightarrow> (nat \<Rightarrow> real) \<Rightarrow> position list option" where
  "applyNaturalAutoFitLayout st rand =
     (case currentLayout st of
        None \<Rightarrow> None
      | Some layout \<Rightarrow>
          if layout = [] \<or> selectedImages st = {} then None
          else
            let positions = run_layout st rand layout (selectedImageData st)
            in if list_all (\<lambda>result. result) (validationResults positions)
               then Some positions
               else Some (applyProportionalGridLayout st (selectedImageData st)))"

subsection \<open>Auxiliary notions\<close>

text \<open>
  The images handled so far by the loop of \<open>applyNaturalFlowLayout\<close>: those of the
  finalized rows, then those of the current row.
\<close>

definition flow_images :: "flow_state \<Rightarrow> image list" where
  "flow_images s = map imageData (fs_positions s) @ map item_image (rowImages s)"


subsection \<open>Concrete inputs\<close>

text \<open>Images and states on which the theorems below are evaluated.\<close>

definition wide_image :: image where
  "wide_image = \<lparr>image_id = 1, originalWidth = 1600, originalHeight = 900\<rparr>"

definition banner_image :: image where
  "banner_image = \<lparr>image_id = 3, originalWidth = 1000, originalHeight = 100\<rparr>"

definition tall_image :: image where
  "tall_image = \<lparr>image_id = 2, originalWidth = 900, originalHeight = 1600\<rparr>"

text \<open>A source of random numbers whose every draw is 0.5, so that each offset is 0.\<close>

definition half_random :: "nat \<Rightarrow> real" where
  "half_random k = 0.5"

text \<open>The creator with one 1000 x 100 image loaded and selected, and the flow layout chosen.\<close>

definition banner_selected :: creator where
  "banner_selected = new_creator\<lparr>images := [banner_image], selectedImages := {3},
     currentLayout := Some ''natural-flow''\<rparr>"

text \<open>An image descriptor of negative width, loaded and selected, with the grid chosen.\<close>

definition negative_image :: image where
  "negative_image = \<lparr>image_id = 4, originalWidth = - 100, originalHeight = 100\<rparr>"

definition negative_selected :: creator where
  "negative_selected = new_creator\<lparr>images := [negative_image], selectedImages := {4},
     currentLayout := Some ''proportional-grid''\<rparr>"

text \<open>A row of two items that is too wide for an available width of 1880.\<close>

definition poster_image :: image where
  "poster_image = \<lparr>image_id = 5, originalWidth = 2000, originalHeight = 1000\<rparr>"

definition strip_image :: image where
  "strip_image = \<lparr>image_id = 6, originalWidth = 10000, originalHeight = 1000\<rparr>"

definition scaled_row :: "row_item list" where
  "scaled_row =
     [\<lparr>item_image = poster_image, item_aspectRatio = 2, naturalWidth = 1000, naturalHeight = 500,
       item_x = 20, item_y = 20\<rparr>,
      \<lparr>item_image = strip_image, item_aspectRatio = 10, naturalWidth = 1000, naturalHeight = 100,
       item_x = 1030, item_y = 20\<rparr>]"

text \<open>Three images for the masonry layout, and five equal squares.\<close>

definition three_images :: "image list" where
  "three_images = [wide_image, tall_image, banner_image]"

definition square_image :: image where
  "square_image = \<lparr>image_id = 7, originalWidth = 500, originalHeight = 500\<rparr>"

definition five_squares :: "image list" where
  "five_squares = replicate 5 square_image"



text \<open>A 561 x 300 image, whose ratio 1.87 is not a double.\<close>

definition photo_image :: image where
  "photo_image = \<lparr>image_id = 9, originalWidth = 561, originalHeight = 300\<rparr>"






section \<open>The engine in double-precision arithmetic\<close>

text \<open>
  The definitions above read every number as a real. The code computes in IEEE 754
  double precision: each \<open>+\<close>, \<open>-\<close>, \<open>*\<close> and \<open>/\<close> returns the double nearest to the exact
  result, ties going to the even significand. Where a property depends on that rounding,
  the functions are embedded a second time, below, with every operation of the source
  rounded; these definitions carry the suffix \<open>_fl\<close>.

  \<open>fl x\<close> is the nearest number with a significand of 53 bits, the exponent being unbounded:
  it is what the code computes as long as no result overflows (a magnitude of \<open>2^1024\<close> or more)
  or falls into the subnormal range (below \<open>2^-1022\<close>), and no division is by zero. The
  theorems about the \<open>_fl\<close> functions assume bounds on their inputs that keep every result
  inside that range: image dimensions, sizes and widths between 1 and \<open>2^31\<close>.
\<close>

subsection \<open>Rounding\<close>

text \<open>The nearest integer, the even one of two equally near.\<close>

definition round_even :: "real \<Rightarrow> int" where
  "round_even y =
     (let f = \<lfloor>y\<rfloor> in
      if y - of_int f < 1 / 2 then f
      else if 1 / 2 < y - of_int f then f + 1
      else if even f then f else f + 1)"

text \<open>The distance between neighbouring doubles in the binade of \<open>x\<close>.\<close>

definition ulp :: "real \<Rightarrow> real" where
  "ulp x = 2 powr (of_int \<lfloor>log 2 \<bar>x\<bar>\<rfloor> - 52)"

definition fl :: "real \<Rightarrow> real" where
  "fl x = (if x = 0 then 0 else of_int (round_even (x / ulp x)) * ulp x)"

definition fadd :: "real \<Rightarrow> real \<Rightarrow> real" where
  "fadd a b = fl (a + b)"

definition fsub :: "real \<Rightarrow> real \<Rightarrow> real" where
  "fsub a b = fl (a - b)"

definition fmul :: "real \<Rightarrow> real \<Rightarrow> real" where
  "fmul a b = fl (a * b)"

definition fdiv :: "real \<Rightarrow> real \<Rightarrow> real" where
  "fdiv a b = fl (a / b)"

subsection \<open>Aspect ratio preservation methods, in doubles\<close>

definition calculateAspectRatio_fl :: "image \<Rightarrow> real" where
  "calculateAspectRatio_fl img = fdiv (originalWidth img) (originalHeight img)"

text \<open>
  The records keep the literals of the source as they are written (\<open>1.33\<close>, \<open>0.05\<close>, \<open>0.3\<close>);
  the fields of the code hold the doubles nearest to them. Where such a field is read, its
  value is rounded; the settings that the theorems below assume to be doubles (\<open>fl x = x\<close>)
  are read as they are.
\<close>

definition category_matches_fl :: "real \<Rightarrow> category \<Rightarrow> bool" where
  "category_matches_fl ratio category =
     (case (cat_ratio category, cat_tolerance category) of
        (Some r, Some t) \<Rightarrow> \<bar>fsub ratio (fl r)\<bar> \<le> fl t
      | _ \<Rightarrow> False)"

definition categorizeByAspectRatio_fl :: "creator \<Rightarrow> image \<Rightarrow> category" where
  "categorizeByAspectRatio_fl st img =
     (let ratio = calculateAspectRatio_fl img in
      case find (category_matches_fl ratio) (aspectRatioCategories st) of
        Some category \<Rightarrow> category
      | None \<Rightarrow>
          if ratio > 1
          then \<lparr>cat_name = ''Landscape'', cat_ratio = None, cat_tolerance = None, cat_group = ''landscape''\<rparr>
          else \<lparr>cat_name = ''Portrait'', cat_ratio = None, cat_tolerance = None, cat_group = ''portrait''\<rparr>)"

definition groupImagesByAspectRatio_fl :: "creator \<Rightarrow> image list \<Rightarrow> (string \<times> image list) list" where
  "groupImagesByAspectRatio_fl st imgs =
     foldl (\<lambda>groups img. push_group (cat_group (categorizeByAspectRatio_fl st img)) img groups)
       [] imgs"

text \<open>The literal \<open>0.01\<close> is the double nearest to one hundredth.\<close>

definition validateAspectRatioPreservation_fl :: "image \<Rightarrow> dimensions \<Rightarrow> bool" where
  "validateAspectRatioPreservation_fl originalImage proposedDimensions =
     (let originalRatio = calculateAspectRatio_fl originalImage;
          proposedRatio = fdiv (dim_width proposedDimensions) (dim_height proposedDimensions);
          tolerance = fl 0.01
      in \<bar>fsub originalRatio proposedRatio\<bar> \<le> tolerance)"

definition scaleImagePreservingRatio_fl :: "creator \<Rightarrow> image \<Rightarrow> real \<Rightarrow> real \<Rightarrow> dimensions" where
  "scaleImagePreservingRatio_fl st originalImage maxWidth maxHeight =
     (let aspectRatio = calculateAspectRatio_fl originalImage;
          (width, height) =
             (if fdiv maxWidth maxHeight > aspectRatio
              then (fmul maxHeight aspectRatio, maxHeight)
              else (maxWidth, fdiv maxWidth aspectRatio));
          minSize = minImageSize (autoFitSettings st)
      in if width < minSize \<or> height < minSize
         then (if width < height
               then \<lparr>dim_width = minSize, dim_height = fdiv minSize aspectRatio\<rparr>
               else \<lparr>dim_width = fmul minSize aspectRatio, dim_height = minSize\<rparr>)
         else \<lparr>dim_width = width, dim_height = height\<rparr>)"

subsection \<open>Natural layout algorithms, in doubles\<close>

text \<open>
  The comparator \<open>b.originalWidth * b.originalHeight - a.originalWidth * a.originalHeight\<close>:
  the difference of two doubles is rounded, but its sign is the sign of the exact
  difference of the two rounded areas.
\<close>

definition sortedImages_fl :: "creator \<Rightarrow> image list \<Rightarrow> image list" where
  "sortedImages_fl st imgs =
     (if prioritizeLargeImages (autoFitSettings st)
      then sort_key (\<lambda>a. - fmul (originalWidth a) (originalHeight a)) imgs
      else imgs)"

definition place_item_fl :: "creator \<Rightarrow> real \<Rightarrow> real \<Rightarrow> real \<times> position list \<Rightarrow> row_item \<Rightarrow> real \<times> position list" where
  "place_item_fl st finalScaleFactor rowY s item =
     (let currentX = fst s; positions = snd s;
          finalWidth = fmul (naturalWidth item) finalScaleFactor;
          finalHeight = fmul (naturalHeight item) finalScaleFactor
      in (fadd currentX (fadd finalWidth (spacing (autoFitSettings st))),
          positions @
            [\<lparr>imageData = item_image item, pos_x = currentX, pos_y = rowY,
              pos_width = max (minImageSize (autoFitSettings st)) finalWidth,
              pos_height = max (minImageSize (autoFitSettings st)) finalHeight\<rparr>]))"

definition finalizeNaturalRow_fl :: "creator \<Rightarrow> row_item list \<Rightarrow> real \<Rightarrow> real \<Rightarrow> position list \<Rightarrow> position list" where
  "finalizeNaturalRow_fl st rowItems rowY availableWidth positions =
     (if rowItems = [] then positions
      else
        let totalNaturalWidth = foldl (\<lambda>acc item. fadd acc (naturalWidth item)) 0 rowItems;
            totalSpacing = fmul (real (length rowItems) - 1) (spacing (autoFitSettings st));
            availableImageWidth = fsub availableWidth totalSpacing;
            scaleFactor = min 1 (fdiv availableImageWidth totalNaturalWidth);
            finalScaleFactor = max (fl (maxScaleDown (autoFitSettings st))) scaleFactor
        in snd (foldl (place_item_fl st finalScaleFactor rowY)
                  (margin (autoFitSettings st), positions) rowItems))"

definition flow_step_fl :: "creator \<Rightarrow> flow_state \<Rightarrow> image \<Rightarrow> flow_state" where
  "flow_step_fl st s img =
     (let mg = margin (autoFitSettings st); sp = spacing (autoFitSettings st);
          availableWidth = fsub (canvasWidth st) (fmul 2 mg);
          aspectRatio = calculateAspectRatio_fl img;
          imageWidth = min (originalWidth img) (fmul availableWidth (fl 0.3));
          imageHeight = fdiv imageWidth aspectRatio;
          s1 = (if fadd (currentRowX s) imageWidth > fadd availableWidth mg \<and> rowImages s \<noteq> []
                then \<lparr>fs_positions =
                        finalizeNaturalRow_fl st (rowImages s) (currentRowY s) availableWidth (fs_positions s),
                      currentRowY = fadd (currentRowY s) (fadd (currentRowHeight s) sp),
                      currentRowX = mg, currentRowHeight = 0, rowImages = []\<rparr>
                else s)
      in \<lparr>fs_positions = fs_positions s1,
          currentRowY = currentRowY s1,
          currentRowX = fadd (currentRowX s1) (fadd imageWidth sp),
          currentRowHeight = max (currentRowHeight s1) imageHeight,
          rowImages = rowImages s1 @
            [\<lparr>item_image = img, item_aspectRatio = aspectRatio, naturalWidth = imageWidth,
              naturalHeight = imageHeight, item_x = currentRowX s1, item_y = currentRowY s1\<rparr>]\<rparr>)"

definition applyNaturalFlowLayout_fl :: "creator \<Rightarrow> image list \<Rightarrow> position list" where
  "applyNaturalFlowLayout_fl st imgs =
     (let mg = margin (autoFitSettings st);
          availableWidth = fsub (canvasWidth st) (fmul 2 mg);
          s = foldl (flow_step_fl st)
                \<lparr>fs_positions = [], currentRowY = mg, currentRowX = mg, currentRowHeight = 0,
                 rowImages = []\<rparr>
                (sortedImages_fl st imgs)
      in if rowImages s \<noteq> []
         then finalizeNaturalRow_fl st (rowImages s) (currentRowY s) availableWidth (fs_positions s)
         else fs_positions s)"

text \<open>
  The number of columns is an integer between 2 and 5: \<open>Math.sqrt\<close> is correctly rounded and
  exact on the squares 1, 4, 9 and 16, so \<open>columnCount\<close> above is also what the doubles give.
\<close>

definition columnWidth_fl :: "creator \<Rightarrow> image list \<Rightarrow> real" where
  "columnWidth_fl st imgs =
     (let availableWidth = fsub (canvasWidth st) (fmul 2 (margin (autoFitSettings st)))
      in fdiv (fsub availableWidth (fmul (real (columnCount imgs) - 1) (spacing (autoFitSettings st))))
           (real (columnCount imgs)))"

text \<open>The search for the shortest column only compares, so \<open>shortest\<close> serves as it is.\<close>

definition masonry_step_fl :: "creator \<Rightarrow> nat \<Rightarrow> real \<Rightarrow> real list \<times> position list \<Rightarrow> image \<Rightarrow> real list \<times> position list" where
  "masonry_step_fl st n colWidth s img =
     (let columnHeights = fst s; positions = snd s;
          shortestColumn = fst (shortest columnHeights n);
          scaledDimensions = scaleImagePreservingRatio_fl st img colWidth (fmul colWidth 2);
          x = fadd (margin (autoFitSettings st))
                (fmul (real shortestColumn) (fadd colWidth (spacing (autoFitSettings st))));
          y = columnHeights ! shortestColumn
      in (columnHeights[shortestColumn :=
            fadd (columnHeights ! shortestColumn)
              (fadd (dim_height scaledDimensions) (spacing (autoFitSettings st)))],
          positions @
            [\<lparr>imageData = img, pos_x = x, pos_y = y,
              pos_width = dim_width scaledDimensions,
              pos_height = dim_height scaledDimensions\<rparr>]))"

definition masonry_run_fl :: "creator \<Rightarrow> image list \<Rightarrow> image list \<Rightarrow> real list \<times> position list" where
  "masonry_run_fl st imgs placed =
     foldl (masonry_step_fl st (columnCount imgs) (columnWidth_fl st imgs))
       (replicate (columnCount imgs) (margin (autoFitSettings st)), []) placed"

definition applyMasonryLayout_fl :: "creator \<Rightarrow> image list \<Rightarrow> position list" where
  "applyMasonryLayout_fl st imgs = snd (masonry_run_fl st imgs (sortedImages_fl st imgs))"

definition masonryColumnHeights_fl :: "creator \<Rightarrow> image list \<Rightarrow> real list" where
  "masonryColumnHeights_fl st imgs = fst (masonry_run_fl st imgs (sortedImages_fl st imgs))"

text \<open>
  \<open>cols\<close> and \<open>rows\<close> are integers (\<open>gridCols\<close>, \<open>gridRows\<close> above); so are \<open>row\<close> and \<open>col\<close>.
\<close>

definition baseGridWidth_fl :: "creator \<Rightarrow> image list \<Rightarrow> real" where
  "baseGridWidth_fl st imgs =
     (let availableWidth = fsub (canvasWidth st) (fmul 2 (margin (autoFitSettings st)))
      in fdiv (fsub availableWidth (fmul (real (gridCols imgs) - 1) (spacing (autoFitSettings st))))
           (real (gridCols imgs)))"

definition baseGridHeight_fl :: "creator \<Rightarrow> image list \<Rightarrow> real" where
  "baseGridHeight_fl st imgs =
     (let availableHeight = fsub (canvasHeight st) (fmul 2 (margin (autoFitSettings st)))
      in fdiv (fsub availableHeight (fmul (real (gridRows imgs) - 1) (spacing (autoFitSettings st))))
           (real (gridRows imgs)))"

definition grid_cell_fl :: "creator \<Rightarrow> image list \<Rightarrow> nat \<Rightarrow> position" where
  "grid_cell_fl st imgs i =
     (let img = imgs ! i;
          row = i div gridCols imgs;
          col = i mod gridCols imgs;
          gridX = fadd (margin (autoFitSettings st))
                    (fmul (real col) (fadd (baseGridWidth_fl st imgs) (spacing (autoFitSettings st))));
          gridY = fadd (margin (autoFitSettings st))
                    (fmul (real row) (fadd (baseGridHeight_fl st imgs) (spacing (autoFitSettings st))));
          scaledDimensions =
            scaleImagePreservingRatio_fl st img (baseGridWidth_fl st imgs) (baseGridHeight_fl st imgs);
          x = fadd gridX (fdiv (fsub (baseGridWidth_fl st imgs) (dim_width scaledDimensions)) 2);
          y = fadd gridY (fdiv (fsub (baseGridHeight_fl st imgs) (dim_height scaledDimensions)) 2)
      in \<lparr>imageData = img, pos_x = x, pos_y = y,
          pos_width = dim_width scaledDimensions, pos_height = dim_height scaledDimensions\<rparr>)"

definition applyProportionalGridLayout_fl :: "creator \<Rightarrow> image list \<Rightarrow> position list" where
  "applyProportionalGridLayout_fl st imgs = map (grid_cell_fl st imgs) [0..<length imgs]"

definition group_step_fl :: "creator \<Rightarrow> real \<times> position list \<Rightarrow> string \<times> image list \<Rightarrow> real \<times> position list" where
  "group_step_fl st s grp =
     (let currentY = fst s; positions = snd s;
          groupPositions = applyNaturalFlowLayout_fl st (snd grp)
      in case groupPositions of
           [] \<Rightarrow> s
         | p # ps \<Rightarrow>
             let minY = foldl min (pos_y p) (map pos_y ps);
                 maxY = foldl max (fadd (pos_y p) (pos_height p))
                          (map (\<lambda>pos. fadd (pos_y pos) (pos_height pos)) ps);
                 groupHeight = fsub maxY minY
             in (fadd currentY (fadd groupHeight (fmul (spacing (autoFitSettings st)) 2)),
                 positions @
                   map (\<lambda>pos. pos\<lparr>pos_y := fadd (fsub (pos_y pos) minY) currentY\<rparr>) groupPositions))"

definition applyAspectGroupedLayout_fl :: "creator \<Rightarrow> image list \<Rightarrow> position list" where
  "applyAspectGroupedLayout_fl st imgs =
     snd (foldl (group_step_fl st) (margin (autoFitSettings st), []) (groupImagesByAspectRatio_fl st imgs))"

definition organic_step_fl :: "creator \<Rightarrow> (nat \<Rightarrow> real) \<Rightarrow> nat \<times> nat \<times> position list \<Rightarrow> position \<Rightarrow> nat \<times> nat \<times> position list" where
  "organic_step_fl st rand s pos =
     (let index = fst s; calls = fst (snd s); positions = snd (snd s);
          mg = margin (autoFitSettings st) in
      if allowStacking (autoFitSettings st) \<and> index > 0
      then
        let maxOffset = fmul (spacing (autoFitSettings st)) 0.5;
            x1 = fadd (pos_x pos) (fmul (fsub (rand calls) 0.5) maxOffset);
            y1 = fadd (pos_y pos) (fmul (fsub (rand (calls + 1)) 0.5) maxOffset);
            x2 = max mg (min x1 (fsub (fsub (canvasWidth st) (pos_width pos)) mg));
            y2 = max mg (min y1 (fsub (fsub (canvasHeight st) (pos_height pos)) mg))
        in (index + 1, calls + 2, positions @ [pos\<lparr>pos_x := x2, pos_y := y2\<rparr>])
      else (index + 1, calls, positions @ [pos]))"

definition applyOrganicStackLayout_fl :: "creator \<Rightarrow> (nat \<Rightarrow> real) \<Rightarrow> image list \<Rightarrow> position list" where
  "applyOrganicStackLayout_fl st rand imgs =
     snd (snd (foldl (organic_step_fl st rand) (0, 0, []) (applyMasonryLayout_fl st imgs)))"

subsection \<open>The orchestrator, in doubles\<close>

definition run_layout_fl :: "creator \<Rightarrow> (nat \<Rightarrow> real) \<Rightarrow> string \<Rightarrow> image list \<Rightarrow> position list" where
  "run_layout_fl st rand layout imgs =
     (if layout = ''natural-flow'' then applyNaturalFlowLayout_fl st imgs
      else if layout = ''masonry'' then applyMasonryLayout_fl st imgs
      else if layout = ''proportional-grid'' then applyProportionalGridLayout_fl st imgs
      else if layout = ''aspect-grouped'' then applyAspectGroupedLayout_fl st imgs
      else if layout = ''organic'' then applyOrganicStackLayout_fl st rand imgs
      else applyNaturalFlowLayout_fl st imgs)"

definition validationResults_fl :: "position list \<Rightarrow> bool list" where
  "validationResults_fl positions =
     map (\<lambda>pos. validateAspectRatioPreservation_fl (imageData pos)
                  \<lparr>dim_width = pos_width pos, dim_height = pos_height pos\<rparr>) positions"

definition applyNaturalAutoFitLayout_fl :: "creator \<Rightarrow> (nat \<Rightarrow> real) \<Rightarrow> position list option" where
  "applyNaturalAutoFitLayout_fl st rand =
     (case currentLayout st of
        None \<Rightarrow> None
      | Some layout \<Rightarrow>
          if layout = [] \<or> selectedImages st = {} then None
          else
            let positions = run_layout_fl st rand layout (selectedImageData st)
            in if list_all (\<lambda>result. result) (validationResults_fl positions)
               then Some positions
               else Some (applyProportionalGridLayout_fl st (selectedImageData st)))"

section \<open>Properties\<close>

subsection \<open>Scaling into a bounding box\<close>

lemma ratio_pos:
  "0 < originalWidth img \<Longrightarrow> 0 < originalHeight img \<Longrightarrow> 0 < calculateAspectRatio img"
  by (simp add: calculateAspectRatio_def)

lemma scale_positive:
  assumes "0 < originalWidth img" and "0 < originalHeight img"
    and "0 < minImageSize (autoFitSettings st)"
  shows "0 < dim_width (scaleImagePreservingRatio st img maxWidth maxHeight)
       \<and> 0 < dim_height (scaleImagePreservingRatio st img maxWidth maxHeight)"
  using ratio_pos[OF assms(1,2)] assms(3)
  by (auto simp: scaleImagePreservingRatio_def Let_def split: if_splits)

lemma scale_exact:
  assumes "0 < originalWidth img" and "0 < originalHeight img"
    and "0 < minImageSize (autoFitSettings st)"
  shows "dim_width (scaleImagePreservingRatio st img maxWidth maxHeight)
           / dim_height (scaleImagePreservingRatio st img maxWidth maxHeight)
         = calculateAspectRatio img"
  using ratio_pos[OF assms(1,2)] assms(3)
  by (auto simp: scaleImagePreservingRatio_def Let_def split: if_splits)

text \<open>\<open>Math.ceil(Math.sqrt(n))\<close> is the least \<open>k\<close> whose square reaches \<open>n\<close>.\<close>

lemma ceil_sqrt_eq:
  assumes "n \<le> k * k" and "k = 0 \<or> (k - 1) * (k - 1) < n"
  shows "nat \<lceil>sqrt (real n)\<rceil> = k"
proof (cases "k = 0")
  case True
  with assms(1) show ?thesis by simp
next
  case False
  with assms(2) have lo: "(k - 1) * (k - 1) < n" by simp
  have "real n \<le> (real k)\<^sup>2"
    using assms(1) by (metis of_nat_le_iff of_nat_mult power2_eq_square)
  then have up: "sqrt (real n) \<le> real k"
    by (simp add: real_le_lsqrt)
  have "(real (k - 1))\<^sup>2 < real n"
    using lo by (metis of_nat_less_iff of_nat_mult power2_eq_square)
  then have "real (k - 1) < sqrt (real n)"
    by (rule real_less_rsqrt)
  then have "real k - 1 < sqrt (real n)"
    using False by (simp add: of_nat_diff)
  then have "of_int (int k) - 1 < sqrt (real n)" by simp
  moreover have "sqrt (real n) \<le> of_int (int k)" using up by simp
  ultimately have "\<lceil>sqrt (real n)\<rceil> = int k" by (rule ceiling_unique)
  then show ?thesis by simp
qed

section \<open>Properties of the rounding\<close>

lemma round_even_of_int [simp]: "round_even (of_int n) = n"
  by (simp add: round_even_def)

lemma round_even_near: "\<bar>of_int (round_even y) - y\<bar> \<le> 1 / 2"
proof -
  have "of_int \<lfloor>y\<rfloor> \<le> y" "y < of_int \<lfloor>y\<rfloor> + 1" by linarith+
  then show ?thesis
    by (auto simp: round_even_def Let_def)
qed

lemma round_even_ge: "of_int a \<le> y \<Longrightarrow> a \<le> round_even y"
proof -
  assume "of_int a \<le> y"
  then have "a \<le> \<lfloor>y\<rfloor>" by (simp add: le_floor_iff)
  then show ?thesis by (auto simp: round_even_def Let_def)
qed

lemma round_even_le: 
  assumes "y \<le> of_int b" shows "round_even y \<le> b"
proof (cases "y = of_int b")
  case True then show ?thesis by simp
next
  case False
  with assms have "y < of_int b" by simp
  then have "\<lfloor>y\<rfloor> < b" by (simp add: floor_less_iff)
  then show ?thesis by (auto simp: round_even_def Let_def)
qed

lemma round_even_mono:
  assumes "y \<le> z" shows "round_even y \<le> round_even z"
proof (cases "\<lfloor>y\<rfloor> = \<lfloor>z\<rfloor>")
  case True
  with assms show ?thesis
    by (auto simp: round_even_def Let_def)
next
  case False
  with assms have "\<lfloor>y\<rfloor> < \<lfloor>z\<rfloor>" by (simp add: floor_mono order.strict_iff_order)
  then have "\<lfloor>y\<rfloor> + 1 \<le> \<lfloor>z\<rfloor>" by simp
  moreover have "round_even y \<le> \<lfloor>y\<rfloor> + 1" by (auto simp: round_even_def Let_def)
  moreover have "\<lfloor>z\<rfloor> \<le> round_even z" by (auto simp: round_even_def Let_def)
  ultimately show ?thesis by linarith
qed

lemma round_even_minus: "round_even (- y) = - round_even y"
proof (cases "y = of_int \<lfloor>y\<rfloor>")
  case True
  then obtain n where "y = of_int n" by blast
  then show ?thesis by (simp flip: of_int_minus)
next
  case False
  then have fl: "\<lfloor>- y\<rfloor> = - \<lfloor>y\<rfloor> - 1"
    by (smt (verit, best) Ints_of_int ceiling_altdef ceiling_def floor_of_int of_int_floor_cancel)
  have "of_int \<lfloor>y\<rfloor> < y" using False by (metis floor_less_iff less_le of_int_floor_le order_refl)
  then show ?thesis
    unfolding round_even_def Let_def fl
    by (auto simp: )
qed


lemma ulp_pos [simp]: "0 < ulp x"
  by (simp add: ulp_def)

lemma ulp_nonneg [simp]: "0 \<le> ulp x"
  by (simp add: ulp_def)

lemma ulp_nonzero [simp]: "ulp x \<noteq> 0"
  by (simp add: ulp_def)

lemma ulp_minus [simp]: "ulp (- x) = ulp x"
  by (simp add: ulp_def)

lemma binade_bounds:
  assumes "0 < x"
  shows "2 powr (of_int \<lfloor>log 2 x\<rfloor>) \<le> x" and "x < 2 powr (of_int \<lfloor>log 2 x\<rfloor> + 1)"
  using floor_log_eq_powr_iff [of x 2 "\<lfloor>log 2 x\<rfloor>"] assms by simp_all

lemma ulp_eq:
  assumes "0 < x"
  shows "ulp x = 2 powr (of_int \<lfloor>log 2 x\<rfloor>) / 2 ^ 52"
  using assms by (simp add: ulp_def powr_diff)

lemma scaled_bounds:
  assumes "0 < x"
  shows "2 ^ 52 \<le> x / ulp x" and "x / ulp x < 2 ^ 53"
proof -
  let ?p = "(2::real) powr (of_int \<lfloor>log 2 x\<rfloor>)"
  have p: "0 < ?p" by simp
  have q: "x / ulp x = x / ?p * 2 ^ 52"
    by (simp add: ulp_eq [OF assms])
  have "1 \<le> x / ?p" using binade_bounds(1) [OF assms] p by (simp add: le_divide_eq)
  then have "1 * 2 ^ 52 \<le> x / ?p * 2 ^ 52"
    by (intro mult_right_mono) simp_all
  then show "2 ^ 52 \<le> x / ulp x" unfolding q by simp
  have "x < ?p * 2" using binade_bounds(2) [OF assms] by (simp add: powr_add)
  then have "x / ?p < 2" using p by (simp add: divide_less_eq mult.commute)
  then have "x / ?p * 2 ^ 52 < 2 * 2 ^ 52"
    by (intro mult_strict_right_mono) simp_all
  then show "x / ulp x < 2 ^ 53" unfolding q by simp
qed

lemma fl_zero [simp]: "fl 0 = 0"
  by (simp add: fl_def)

lemma fl_minus: "fl (- x) = - fl x"
  by (simp add: fl_def round_even_minus)

lemma fl_pos_bounds:
  assumes "0 < x"
  shows "2 powr (of_int \<lfloor>log 2 x\<rfloor>) \<le> fl x" and "fl x \<le> 2 powr (of_int \<lfloor>log 2 x\<rfloor> + 1)"
proof -
  let ?p = "(2::real) powr (of_int \<lfloor>log 2 x\<rfloor>)"
  have fl: "fl x = of_int (round_even (x / ulp x)) * (?p / 2 ^ 52)"
    using assms by (simp add: fl_def ulp_eq)
  have "(2::real) ^ 52 = of_int (2 ^ 52)" by simp
  with scaled_bounds(1) [OF assms] have "(2::int) ^ 52 \<le> round_even (x / ulp x)"
    using round_even_ge by metis
  then have "(2::real) ^ 52 \<le> of_int (round_even (x / ulp x))"
    by (metis of_int_le_iff of_int_numeral of_int_power)
  then have "2 ^ 52 * (?p / 2 ^ 52) \<le> of_int (round_even (x / ulp x)) * (?p / 2 ^ 52)"
    by (intro mult_right_mono) simp_all
  then show "?p \<le> fl x" unfolding fl by simp
  have "(2::real) ^ 53 = of_int (2 ^ 53)" by simp
  with scaled_bounds(2) [OF assms] have "round_even (x / ulp x) \<le> (2::int) ^ 53"
    using round_even_le by (metis less_eq_real_def)
  then have "of_int (round_even (x / ulp x)) \<le> (2::real) ^ 53"
    by (metis of_int_le_iff of_int_numeral of_int_power)
  then have "of_int (round_even (x / ulp x)) * (?p / 2 ^ 52) \<le> 2 ^ 53 * (?p / 2 ^ 52)"
    by (intro mult_right_mono) simp_all
  then show "fl x \<le> 2 powr (of_int \<lfloor>log 2 x\<rfloor> + 1)" unfolding fl by (simp add: powr_add)
qed

lemma fl_pos: "0 < x \<Longrightarrow> 0 < fl x"
  using fl_pos_bounds(1) [of x] by (smt (verit) powr_gt_zero)

lemma fl_near:
  assumes "x \<noteq> 0"
  shows "\<bar>fl x - x\<bar> \<le> ulp x / 2"
proof -
  have "fl x - x = (of_int (round_even (x / ulp x)) - x / ulp x) * ulp x"
    using assms by (simp add: fl_def left_diff_distrib)
  then have "\<bar>fl x - x\<bar> = \<bar>of_int (round_even (x / ulp x)) - x / ulp x\<bar> * ulp x"
    by (simp add: abs_mult)
  also have "\<dots> \<le> 1 / 2 * ulp x"
    by (intro mult_right_mono round_even_near) simp
  finally show ?thesis by simp
qed

lemma ulp_le:
  assumes "x \<noteq> 0"
  shows "ulp x \<le> \<bar>x\<bar> / 2 ^ 52"
proof -
  have "0 < \<bar>x\<bar>" using assms by simp
  from binade_bounds(1) [OF this] show ?thesis
    by (simp add: ulp_def powr_diff divide_right_mono)
qed

lemma fl_rel: "\<bar>fl x - x\<bar> \<le> \<bar>x\<bar> / 2 ^ 53"
proof (cases "x = 0")
  case True then show ?thesis by simp
next
  case False
  from fl_near [OF False] ulp_le [OF False] show ?thesis by simp
qed

lemma fl_mono_pos:
  assumes "0 < x" and "x \<le> y"
  shows "fl x \<le> fl y"
proof (cases "\<lfloor>log 2 x\<rfloor> = \<lfloor>log 2 y\<rfloor>")
  case True
  from assms have y: "0 < y" by simp
  have "ulp x = ulp y" using True assms y by (simp add: ulp_def)
  moreover have "x / ulp y \<le> y / ulp y"
    using assms(2) by (intro divide_right_mono) simp_all
  ultimately have "round_even (x / ulp x) \<le> round_even (y / ulp y)"
    by (simp add: round_even_mono)
  then have "of_int (round_even (x / ulp x)) * ulp y \<le> of_int (round_even (y / ulp y)) * ulp y"
    by (intro mult_right_mono) simp_all
  then show ?thesis using assms y \<open>ulp x = ulp y\<close> by (simp add: fl_def)
next
  case False
  from assms have y: "0 < y" by simp
  have "log 2 x \<le> log 2 y" using assms by simp
  then have "\<lfloor>log 2 x\<rfloor> \<le> \<lfloor>log 2 y\<rfloor>" by (rule floor_mono)
  with False have "\<lfloor>log 2 x\<rfloor> + 1 \<le> \<lfloor>log 2 y\<rfloor>" by simp
  then have "(of_int \<lfloor>log 2 x\<rfloor> + 1 :: real) \<le> of_int \<lfloor>log 2 y\<rfloor>"
    by (metis of_int_1 of_int_add of_int_le_iff)
  then have "(2::real) powr (of_int \<lfloor>log 2 x\<rfloor> + 1) \<le> 2 powr (of_int \<lfloor>log 2 y\<rfloor>)"
    by (simp add: powr_mono)
  with fl_pos_bounds(2) [OF assms(1)] fl_pos_bounds(1) [OF y] show ?thesis by linarith
qed

lemma fl_mono:
  assumes "x \<le> y"
  shows "fl x \<le> fl y"
proof -
  consider "0 < x" | "x \<le> 0" "0 \<le> y" | "y < 0" using assms by linarith
  then show ?thesis
  proof cases
    case 1 then show ?thesis using assms by (rule fl_mono_pos)
  next
    case 2
    have "fl x \<le> 0"
    proof (cases "x = 0")
      case True then show ?thesis by simp
    next
      case False
      with 2 have "0 < - x" by simp
      from fl_pos [OF this] show ?thesis by (simp add: fl_minus)
    qed
    moreover have "0 \<le> fl y"
    proof (cases "y = 0")
      case True then show ?thesis by simp
    next
      case False
      with 2 have "0 < y" by simp
      from fl_pos [OF this] show ?thesis by simp
    qed
    ultimately show ?thesis by simp
  next
    case 3
    then have "0 < - y" "- y \<le> - x" using assms by simp_all
    from fl_mono_pos [OF this] show ?thesis by (simp add: fl_minus)
  qed
qed


lemma fl_eval:
  assumes "0 < x" and "2 powr (of_int e) \<le> x" and "x < 2 powr (of_int e + 1)"
  shows "fl x = of_int (round_even (x / 2 powr (of_int e - 52))) * 2 powr (of_int e - 52)"
proof -
  have "\<lfloor>log 2 x\<rfloor> = e"
    using floor_log_eq_powr_iff [of x 2 e] assms by simp
  then show ?thesis using assms(1) by (simp add: fl_def ulp_def)
qed

lemma fl_evalI_up:
  assumes "0 < x" and "2 ^ 52 \<le> x * 2 ^ k" and "x * 2 ^ k < 2 ^ 53"
    and "round_even (x * 2 ^ k) = n" and "y = of_int n / 2 ^ k"
  shows "fl x = y"
proof -
  have p: "2 powr (of_int (52 - int k) - 52) = 1 / (2::real) ^ k"
    by (simp add: powr_minus powr_realpow divide_simps)
  have q: "2 powr (of_int (52 - int k)) = 2 ^ 52 / (2::real) ^ k"
    by (simp add: powr_diff powr_realpow)
  have lo: "2 powr (of_int (52 - int k)) \<le> x"
    unfolding q using assms(2) by (simp add: divide_le_eq)
  have hi: "x < 2 powr (of_int (52 - int k) + 1)"
    unfolding powr_add q using assms(3) by (simp add: less_divide_eq)
  show ?thesis
    unfolding fl_eval [OF assms(1) lo hi] p using assms(4,5) by simp
qed

lemma fl_evalI_down:
  assumes "0 < x" and "2 ^ 52 \<le> x / 2 ^ k" and "x / 2 ^ k < 2 ^ 53"
    and "round_even (x / 2 ^ k) = n" and "y = of_int n * 2 ^ k"
  shows "fl x = y"
proof -
  have p: "2 powr (of_int (52 + int k) - 52) = (2::real) ^ k"
    by (simp add: powr_realpow)
  have q: "2 powr (of_int (52 + int k)) = 2 ^ 52 * (2::real) ^ k"
    by (simp add: powr_add powr_realpow)
  have lo: "2 powr (of_int (52 + int k)) \<le> x"
    unfolding q using assms(2) by (simp add: le_divide_eq)
  have hi: "x < 2 powr (of_int (52 + int k) + 1)"
    unfolding powr_add q using assms(3) by (simp add: divide_less_eq)
  show ?thesis
    unfolding fl_eval [OF assms(1) lo hi] p using assms(4,5) by simp
qed

lemma fl_repr_pos:
  assumes "0 < m" and "m < 2 ^ 53"
  shows "fl (of_int m * 2 powr (of_int j)) = of_int m * 2 powr (of_int j)"
proof -
  define x :: real where "x = of_int m * 2 powr (of_int j)"
  define e where "e = \<lfloor>log 2 x\<rfloor>"
  have x: "0 < x" using assms(1) by (simp add: x_def)
  have u: "ulp x = 2 powr (of_int e - 52)"
    using x by (simp add: ulp_def e_def)
  have "of_int m < (2::real) ^ 53" using assms(2)
    by (metis of_int_less_iff of_int_numeral of_int_power)
  then have "x < 2 ^ 53 * 2 powr (of_int j)"
    unfolding x_def by (intro mult_strict_right_mono) simp_all
  also have "\<dots> = 2 powr (53 + of_int j)"
    by (simp add: powr_add powr_realpow [symmetric])
  finally have "2 powr (of_int e) < 2 powr (53 + of_int j :: real)"
    using binade_bounds(1) [OF x] unfolding e_def by linarith
  then have "of_int e < (53 + of_int j :: real)" by simp
  then have "0 \<le> j - e + 52" by linarith
  define d where "d = nat (j - e + 52)"
  have "int d = j - e + 52"
    using \<open>0 \<le> j - e + 52\<close> by (simp add: d_def)
  then have "real d = of_int (j - e + 52)"
    by (metis of_int_of_nat_eq)
  then have jd: "(of_int j :: real) = (of_int e - 52) + real d"
    by simp
  have "2 powr (of_int j) = 2 powr ((of_int e - 52) + real d)"
    by (simp only: jd)
  also have "\<dots> = ulp x * 2 ^ d"
    unfolding u by (simp add: powr_add powr_realpow)
  finally have j: "2 powr (of_int j) = ulp x * 2 ^ d" .
  have xm: "x = of_int m * (ulp x * 2 ^ d)"
    by (subst j [symmetric]) (rule x_def)
  then have "x / ulp x = of_int m * (ulp x * 2 ^ d) / ulp x"
    by (rule arg_cong [where f = "\<lambda>t. t / ulp x"])
  also have "\<dots> = of_int (m * 2 ^ d)" by simp
  finally have "round_even (x / ulp x) = m * 2 ^ d"
    by (simp only: round_even_of_int)
  then have "fl x = of_int (m * 2 ^ d) * ulp x"
    using x by (simp add: fl_def)
  also have "\<dots> = of_int m * (ulp x * 2 ^ d)" by simp
  also have "\<dots> = x" by (rule xm [symmetric])
  finally show ?thesis unfolding x_def .
qed


lemma fl_of_int:
  assumes "\<bar>n\<bar> < 2 ^ 53"
  shows "fl (of_int n) = of_int n"
proof -
  have pos: "fl (of_int m) = of_int m" if "0 < m" "m < 2 ^ 53" for m :: int
    using fl_repr_pos [OF that, of 0] by simp
  consider "n = 0" | "0 < n" | "n < 0" by linarith
  then show ?thesis
  proof cases
    case 1 then show ?thesis by simp
  next
    case 2 with assms show ?thesis by (intro pos) simp_all
  next
    case 3
    with assms have "fl (of_int (- n)) = of_int (- n)" by (intro pos) simp_all
    then show ?thesis by (simp add: fl_minus)
  qed
qed

lemma fl_numeral: "numeral k < (2::int) ^ 53 \<Longrightarrow> fl (numeral k) = numeral k"
  using fl_of_int [of "numeral k"] by simp

lemma fl_one [simp]: "fl 1 = 1"
  using fl_of_int [of 1] by simp

lemma fl_idem: "fl (fl x) = fl x"
proof -
  have pos: "fl (fl x) = fl x" if x: "0 < x" for x
  proof -
    define e where "e = \<lfloor>log 2 x\<rfloor>"
    define n where "n = round_even (x / ulp x)"
    have u: "ulp x = 2 powr (of_int (e - 52))"
      using x by (simp add: ulp_def e_def)
    have flx: "fl x = of_int n * 2 powr (of_int (e - 52))"
      using x by (simp add: fl_def n_def u)
    have "(2::real) ^ 52 = of_int (2 ^ 52)" by simp
    with scaled_bounds(1) [OF x] have lo: "(2::int) ^ 52 \<le> n"
      unfolding n_def using round_even_ge by metis
    have "(2::real) ^ 53 = of_int (2 ^ 53)" by simp
    with scaled_bounds(2) [OF x] have hi: "n \<le> (2::int) ^ 53"
      unfolding n_def using round_even_le by (metis less_eq_real_def)
    show ?thesis
    proof (cases "n = 2 ^ 53")
      case False
      with hi lo have "0 < n" "n < 2 ^ 53" by simp_all
      then show ?thesis unfolding flx by (rule fl_repr_pos)
    next
      case True
      have "fl x = of_int 1 * 2 powr (of_int (e + 1))"
        unfolding flx True by (simp add: powr_diff powr_add)
      moreover have "fl (of_int 1 * 2 powr (of_int (e + 1))) = of_int 1 * 2 powr (of_int (e + 1))"
        by (rule fl_repr_pos) simp_all
      ultimately show ?thesis by simp
    qed
  qed
  consider "x = 0" | "0 < x" | "x < 0" by linarith
  then show ?thesis
  proof cases
    case 1 then show ?thesis by simp
  next
    case 2 then show ?thesis by (rule pos)
  next
    case 3
    then have "fl (fl (- x)) = fl (- x)" by (intro pos) simp
    then show ?thesis by (simp add: fl_minus)
  qed
qed

lemma fl_evalI_up_neg:
  assumes "x < 0" and "2 ^ 52 \<le> - x * 2 ^ k" and "- x * 2 ^ k < 2 ^ 53"
    and "round_even (- x * 2 ^ k) = n" and "y = - (of_int n / 2 ^ k)"
  shows "fl x = y"
proof -
  from assms(1) have "0 < - x" by simp
  from fl_evalI_up [OF this assms(2,3,4) refl] have "fl (- x) = of_int n / 2 ^ k" .
  then show ?thesis using assms(5) by (simp add: fl_minus)
qed

lemma fl_evalI_down_neg:
  assumes "x < 0" and "2 ^ 52 \<le> - x / 2 ^ k" and "- x / 2 ^ k < 2 ^ 53"
    and "round_even (- x / 2 ^ k) = n" and "y = - (of_int n * 2 ^ k)"
  shows "fl x = y"
proof -
  from assms(1) have "0 < - x" by simp
  from fl_evalI_down [OF this assms(2,3,4) refl] have "fl (- x) = of_int n * 2 ^ k" .
  then show ?thesis using assms(5) by (simp add: fl_minus)
qed

text \<open>
  Each operation has a relative error of at most \<open>2^-53\<close>; a quotient of two results that
  went through two roundings is within \<open>2^-51\<close> of the exact ratio.
\<close>

lemma fl_between:
  assumes "0 < y"
  shows "(1 - 1 / 2 ^ 53) * y \<le> fl y" and "fl y \<le> (1 + 1 / 2 ^ 53) * y"
proof -
  from fl_rel [of y] assms have "\<bar>fl y - y\<bar> \<le> y / 2 ^ 53" by simp
  then have "fl y - y \<le> y / 2 ^ 53" and "y - fl y \<le> y / 2 ^ 53" by linarith+
  then show "(1 - 1 / 2 ^ 53) * y \<le> fl y" and "fl y \<le> (1 + 1 / 2 ^ 53) * y"
    by (simp_all add: algebra_simps)
qed

lemma quot_mul:
  assumes "0 < a" and "0 < rh"
  shows "0 < fmul a rh"
    and "(1 - 1 / 2 ^ 53) * rh \<le> fmul a rh / a"
    and "fmul a rh / a \<le> (1 + 1 / 2 ^ 53) * rh"
proof -
  have p: "0 < a * rh" using assms by simp
  show "0 < fmul a rh" unfolding fmul_def using p by (rule fl_pos)
  have "(1 - 1 / 2 ^ 53) * rh * a \<le> fl (a * rh)"
    using fl_between(1) [OF p] by (simp add: mult_ac)
  then show "(1 - 1 / 2 ^ 53) * rh \<le> fmul a rh / a"
    unfolding fmul_def using assms(1) by (simp add: le_divide_eq)
  have "fl (a * rh) \<le> (1 + 1 / 2 ^ 53) * rh * a"
    using fl_between(2) [OF p] by (simp add: mult_ac)
  then show "fmul a rh / a \<le> (1 + 1 / 2 ^ 53) * rh"
    unfolding fmul_def using assms(1) by (simp add: divide_le_eq)
qed

lemma quot_div:
  assumes "0 < a" and "0 < rh"
  shows "0 < fdiv a rh"
    and "(1 - 1 / 2 ^ 53) * (a / fdiv a rh) \<le> rh"
    and "rh \<le> (1 + 1 / 2 ^ 53) * (a / fdiv a rh)"
proof -
  define c1 :: real where "c1 = 1 - 1 / 2 ^ 53"
  define c2 :: real where "c2 = 1 + 1 / 2 ^ 53"
  have p: "0 < a / rh" using assms by simp
  show h: "0 < fdiv a rh" unfolding fdiv_def using p by (rule fl_pos)
  have "c1 * (a / rh) \<le> fdiv a rh"
    unfolding fdiv_def c1_def by (rule fl_between(1) [OF p])
  then have "c1 * a / rh \<le> fdiv a rh" by simp
  then have "c1 * a \<le> fdiv a rh * rh"
    using assms(2) by (simp only: pos_divide_le_eq)
  then have "c1 * a \<le> rh * fdiv a rh" by (simp only: mult.commute)
  then have "c1 * a / fdiv a rh \<le> rh"
    using h by (simp only: pos_divide_le_eq)
  then show "(1 - 1 / 2 ^ 53) * (a / fdiv a rh) \<le> rh"
    unfolding c1_def by simp
  have "fdiv a rh \<le> c2 * (a / rh)"
    unfolding fdiv_def c2_def by (rule fl_between(2) [OF p])
  then have "fdiv a rh \<le> c2 * a / rh" by simp
  then have "fdiv a rh * rh \<le> c2 * a"
    using assms(2) by (simp only: pos_le_divide_eq)
  then have "rh * fdiv a rh \<le> c2 * a" by (simp only: mult.commute)
  then have "rh \<le> c2 * a / fdiv a rh"
    using h by (simp only: pos_le_divide_eq)
  then show "rh \<le> (1 + 1 / 2 ^ 53) * (a / fdiv a rh)"
    unfolding c2_def by simp
qed

lemma near_ratio:
  fixes q r rh :: real
  assumes "0 < r"
    and "(1 - 1 / 2 ^ 53) * r \<le> rh" and "rh \<le> (1 + 1 / 2 ^ 53) * r"
    and "(1 - 1 / 2 ^ 53) * rh \<le> q \<and> q \<le> (1 + 1 / 2 ^ 53) * rh
       \<or> (1 - 1 / 2 ^ 53) * q \<le> rh \<and> rh \<le> (1 + 1 / 2 ^ 53) * q"
  shows "\<bar>q - r\<bar> \<le> r / 2 ^ 51"
proof -
  have "q - r \<le> r / 2 ^ 51 \<and> r - q \<le> r / 2 ^ 51"
    using assms(4)
  proof
    assume "(1 - 1 / 2 ^ 53) * rh \<le> q \<and> q \<le> (1 + 1 / 2 ^ 53) * rh"
    with assms(1,2,3) show ?thesis by simp
  next
    assume "(1 - 1 / 2 ^ 53) * q \<le> rh \<and> rh \<le> (1 + 1 / 2 ^ 53) * q"
    with assms(1,2,3) show ?thesis by simp
  qed
  then show ?thesis by (simp only: abs_le_iff) simp
qed

subsection \<open>Every strategy places every image\<close>

lemma place_items_images:
  "map imageData (snd (foldl (place_item st f rowY) (cx, ps) row))
     = map imageData ps @ map item_image row"
  by (induction row arbitrary: cx ps) (simp_all add: place_item_def Let_def)

lemma finalizeNaturalRow_images:
  "map imageData (finalizeNaturalRow st row rowY aw ps) = map imageData ps @ map item_image row"
  by (simp add: finalizeNaturalRow_def Let_def place_items_images)

lemma flow_step_images: "flow_images (flow_step st s img) = flow_images s @ [img]"
  by (simp add: flow_images_def flow_step_def Let_def finalizeNaturalRow_images)

lemma flow_loop_images: "flow_images (foldl (flow_step st) s imgs) = flow_images s @ imgs"
  by (induction imgs arbitrary: s) (simp_all add: flow_step_images)

lemma applyNaturalFlowLayout_images:
  "map imageData (applyNaturalFlowLayout st imgs) = sortedImages st imgs"
proof -
  let ?s = "foldl (flow_step st)
     \<lparr>fs_positions = [], currentRowY = margin (autoFitSettings st),
      currentRowX = margin (autoFitSettings st), currentRowHeight = 0, rowImages = []\<rparr>
     (sortedImages st imgs)"
  have "flow_images ?s = sortedImages st imgs"
    unfolding flow_loop_images by (simp add: flow_images_def)
  then show ?thesis
    by (cases "rowImages ?s = []")
      (simp_all add: applyNaturalFlowLayout_def Let_def finalizeNaturalRow_images flow_images_def)
qed

lemma mset_sortedImages: "mset (sortedImages st imgs) = mset imgs"
  by (simp add: sortedImages_def)

lemma masonry_loop_images:
  "map imageData (snd (foldl (masonry_step st n w) s imgs)) = map imageData (snd s) @ imgs"
  by (induction imgs arbitrary: s) (simp_all add: masonry_step_def Let_def)

lemma applyMasonryLayout_images:
  "map imageData (applyMasonryLayout st imgs) = sortedImages st imgs"
  by (simp add: applyMasonryLayout_def masonry_run_def masonry_loop_images)

lemma applyProportionalGridLayout_images:
  "map imageData (applyProportionalGridLayout st imgs) = imgs"
  by (simp add: applyProportionalGridLayout_def grid_cell_def Let_def o_def map_nth)

lemma organic_loop_images:
  "map imageData (snd (snd (foldl (organic_step st rand) s ps)))
     = map imageData (snd (snd s)) @ map imageData ps"
  by (induction ps arbitrary: s) (simp_all add: organic_step_def Let_def)

lemma applyOrganicStackLayout_images:
  "map imageData (applyOrganicStackLayout st rand imgs) = sortedImages st imgs"
  by (simp add: applyOrganicStackLayout_def organic_run_def organic_loop_images
    applyMasonryLayout_images)

lemma push_group_images:
  "mset (concat (map snd (push_group g img groups))) = mset (concat (map snd groups)) + {#img#}"
  by (induction groups) auto

lemma group_loop_images:
  "mset (concat (map snd (foldl (\<lambda>groups img. push_group (f img) img groups) groups imgs)))
     = mset (concat (map snd groups)) + mset imgs"
  by (induction imgs arbitrary: groups) (simp_all add: push_group_images)

lemma groupImagesByAspectRatio_images:
  "mset (concat (map snd (groupImagesByAspectRatio st imgs))) = mset imgs"
  by (simp add: groupImagesByAspectRatio_def group_loop_images)

lemma group_step_images:
  "map imageData (snd (group_step st s grp)) = map imageData (snd s) @ sortedImages st (snd grp)"
proof (cases "applyNaturalFlowLayout st (snd grp)")
  case Nil
  then have "sortedImages st (snd grp) = []"
    using applyNaturalFlowLayout_images [of st "snd grp"] by simp
  with Nil show ?thesis by (simp add: group_step_def Let_def)
next
  case (Cons p ps)
  have "map imageData (p # ps) = sortedImages st (snd grp)"
    using applyNaturalFlowLayout_images [of st "snd grp"] Cons by simp
  then show ?thesis
    using Cons by (simp add: group_step_def Let_def o_def)
qed

lemma group_step_mset:
  "image_mset imageData (mset (snd (group_step st s grp)))
     = image_mset imageData (mset (snd s)) + mset (snd grp)"
proof -
  have "mset (map imageData (snd (group_step st s grp)))
      = mset (map imageData (snd s) @ sortedImages st (snd grp))"
    by (simp only: group_step_images)
  then show ?thesis by (simp add: mset_sortedImages)
qed

lemma grouped_loop_images:
  "image_mset imageData (mset (snd (foldl (group_step st) s groups)))
     = image_mset imageData (mset (snd s)) + mset (concat (map snd groups))"
  by (induction groups arbitrary: s) (simp_all add: group_step_mset)

lemma applyAspectGroupedLayout_images:
  "mset (map imageData (applyAspectGroupedLayout st imgs)) = mset imgs"
  by (simp add: applyAspectGroupedLayout_def grouped_loop_images groupImagesByAspectRatio_images)

subsection \<open>Validation, and the grid as the fallback\<close>

lemma all_valid_iff:
  "list_all (\<lambda>result. result) (validationResults positions)
     = (\<forall>p \<in> set positions. \<bar>calculateAspectRatio (imageData p) - pos_width p / pos_height p\<bar> \<le> 0.01)"
  by (simp add: validationResults_def validateAspectRatioPreservation_def list_all_iff)

lemma grid_cell_exact:
  assumes "0 < originalWidth (imgs ! i)" and "0 < originalHeight (imgs ! i)"
    and "0 < minImageSize (autoFitSettings st)"
  shows "pos_width (grid_cell st imgs i) / pos_height (grid_cell st imgs i)
           = calculateAspectRatio (imageData (grid_cell st imgs i))"
  using scale_exact [OF assms] by (simp add: grid_cell_def Let_def)

lemma grid_exact:
  assumes "\<forall>img \<in> set imgs. 0 < originalWidth img \<and> 0 < originalHeight img"
    and "0 < minImageSize (autoFitSettings st)"
    and "p \<in> set (applyProportionalGridLayout st imgs)"
  shows "pos_width p / pos_height p = calculateAspectRatio (imageData p)"
proof -
  from assms(3) obtain i where i: "i < length imgs" and p: "p = grid_cell st imgs i"
    by (auto simp: applyProportionalGridLayout_def)
  from i assms(1) have "0 < originalWidth (imgs ! i)" and "0 < originalHeight (imgs ! i)"
    by simp_all
  then show ?thesis
    unfolding p using assms(2) by (rule grid_cell_exact)
qed

lemma gridCols_one: "gridCols [a] = 1"
  unfolding gridCols_def by (rule ceil_sqrt_eq) simp_all

lemma gridRows_one: "gridRows [a] = 1"
  by (simp add: gridRows_def gridCols_one)

lemma run_layout_images:
  "mset (map imageData (run_layout st rand layout imgs)) = mset imgs"
  unfolding run_layout_def
  by (simp only: applyNaturalFlowLayout_images applyMasonryLayout_images
      applyProportionalGridLayout_images applyAspectGroupedLayout_images
      applyOrganicStackLayout_images mset_sortedImages if_distrib [of "\<lambda>ps. mset (map imageData ps)"] if_cancel)

subsection \<open>Finalizing a row\<close>

lemma totalNaturalWidth_sum:
  "foldl (\<lambda>acc item. acc + naturalWidth item) a row = a + sum_list (map naturalWidth row)"
  by (induction row arbitrary: a) simp_all

lemma place_items_append:
  "snd (foldl (place_item st f rowY) (cx, ps @ qs) row)
     = ps @ snd (foldl (place_item st f rowY) (cx, qs) row)"
  by (induction row arbitrary: cx qs) (simp_all add: place_item_def Let_def)

lemma place_items_length:
  "length (snd (foldl (place_item st f rowY) (cx, ps) row)) = length ps + length row"
  by (induction row arbitrary: cx ps) (simp_all add: place_item_def Let_def)

lemma place_items_nth:
  assumes "k < length row"
  shows "snd (foldl (place_item st f rowY) (cx, []) row) ! k =
     \<lparr>imageData = item_image (row ! k),
      pos_x = cx + sum_list (map (\<lambda>item. naturalWidth item * f + spacing (autoFitSettings st)) (take k row)),
      pos_y = rowY,
      pos_width = max (minImageSize (autoFitSettings st)) (naturalWidth (row ! k) * f),
      pos_height = max (minImageSize (autoFitSettings st)) (naturalHeight (row ! k) * f)\<rparr>"
  using assms
proof (induction row arbitrary: cx k)
  case Nil
  then show ?case by simp
next
  case (Cons item row)
  let ?p = "\<lparr>imageData = item_image item, pos_x = cx, pos_y = rowY,
      pos_width = max (minImageSize (autoFitSettings st)) (naturalWidth item * f),
      pos_height = max (minImageSize (autoFitSettings st)) (naturalHeight item * f)\<rparr>"
  let ?cx = "cx + naturalWidth item * f + spacing (autoFitSettings st)"
  have unfold: "snd (foldl (place_item st f rowY) (cx, []) (item # row))
      = [?p] @ snd (foldl (place_item st f rowY) (?cx, []) row)"
    using place_items_append [of st f rowY ?cx "[?p]" "[]" row]
    by (simp add: place_item_def Let_def)
  show ?case
  proof (cases k)
    case 0
    then show ?thesis unfolding unfold by simp
  next
    case (Suc j)
    with Cons.prems have "j < length row" by simp
    from Cons.IH [OF this, of ?cx] show ?thesis
      unfolding unfold Suc by (simp add: algebra_simps)
  qed
qed

lemma banner_flow:
  "applyNaturalFlowLayout banner_selected [banner_image] =
     [\<lparr>imageData = banner_image, pos_x = 20, pos_y = 20, pos_width = 564, pos_height = 100\<rparr>]"
  by (simp add: applyNaturalFlowLayout_def flow_step_def finalizeNaturalRow_def place_item_def
    sortedImages_def Let_def calculateAspectRatio_def banner_selected_def new_creator_def
    default_settings_def banner_image_def)

subsection \<open>The masonry loop\<close>

text \<open>The search returns the lowest index among the columns of least height.\<close>

lemma shortest_Suc:
  assumes "0 < m"
  shows "shortest hs (Suc m) =
     (if hs ! m < snd (shortest hs m) then (m, hs ! m) else shortest hs m)"
proof -
  from assms have "[1..<Suc m] = [1..<m] @ [m]" by simp
  then show ?thesis
    by (simp add: shortest_def split_beta)
qed

lemma shortest_spec:
  assumes "0 < n"
  shows "fst (shortest hs n) < n
       \<and> snd (shortest hs n) = hs ! fst (shortest hs n)
       \<and> (\<forall>j<n. hs ! fst (shortest hs n) \<le> hs ! j)
       \<and> (\<forall>j<fst (shortest hs n). hs ! fst (shortest hs n) < hs ! j)"
  using assms
proof (induction n)
  case 0
  then show ?case by simp
next
  case (Suc m)
  show ?case
  proof (cases "m = 0")
    case True
    then show ?thesis by (simp add: shortest_def)
  next
    case False
    then have m: "0 < m" by simp
    note IH = Suc.IH [OF m]
    show ?thesis
    proof (cases "hs ! m < snd (shortest hs m)")
      case True
      then have eq: "shortest hs (Suc m) = (m, hs ! m)"
        by (simp add: shortest_Suc [OF m])
      have "\<forall>j<Suc m. hs ! m \<le> hs ! j"
      proof (intro allI impI)
        fix j assume "j < Suc m"
        then consider "j = m" | "j < m" by linarith
        then show "hs ! m \<le> hs ! j"
        proof cases
          case 1 then show ?thesis by simp
        next
          case 2
          with IH have "hs ! fst (shortest hs m) \<le> hs ! j" by simp
          with True IH show ?thesis by simp
        qed
      qed
      moreover have "\<forall>j<m. hs ! m < hs ! j"
      proof (intro allI impI)
        fix j assume "j < m"
        with IH have "hs ! fst (shortest hs m) \<le> hs ! j" by simp
        with True IH show "hs ! m < hs ! j" by simp
      qed
      ultimately show ?thesis by (simp add: eq)
    next
      case False
      then have eq: "shortest hs (Suc m) = shortest hs m"
        by (simp add: shortest_Suc [OF m])
      have "\<forall>j<Suc m. hs ! fst (shortest hs m) \<le> hs ! j"
      proof (intro allI impI)
        fix j assume "j < Suc m"
        then consider "j = m" | "j < m" by linarith
        then show "hs ! fst (shortest hs m) \<le> hs ! j"
        proof cases
          case 1 with False IH show ?thesis by simp
        next
          case 2 with IH show ?thesis by simp
        qed
      qed
      with IH show ?thesis by (simp add: eq less_Suc_eq)
    qed
  qed
qed

lemma columnCount_bounds: "2 \<le> columnCount imgs \<and> columnCount imgs \<le> 5"
  by (simp add: columnCount_def)

lemma masonry_run_snoc:
  "masonry_run st imgs (xs @ [x]) =
     masonry_step st (columnCount imgs) (columnWidth st imgs) (masonry_run st imgs xs) x"
  by (simp add: masonry_run_def)

lemma masonry_run_lengths:
  "length (fst (masonry_run st imgs xs)) = columnCount imgs
   \<and> length (snd (masonry_run st imgs xs)) = length xs"
proof (induction xs rule: rev_induct)
  case Nil
  show ?case by (simp add: masonry_run_def)
next
  case (snoc x xs)
  then show ?case by (simp add: masonry_run_snoc masonry_step_def Let_def)
qed

lemma masonry_run_prefix:
  "take (length xs) (snd (masonry_run st imgs (xs @ ys))) = snd (masonry_run st imgs xs)"
proof (induction ys rule: rev_induct)
  case Nil
  show ?case by (simp add: masonry_run_lengths)
next
  case (snoc y ys)
  obtain p where "snd (masonry_run st imgs (xs @ ys @ [y])) = snd (masonry_run st imgs (xs @ ys)) @ [p]"
    using masonry_run_snoc [of st imgs "xs @ ys" y]
    by (simp add: masonry_step_def Let_def)
  then have "take (length xs) (snd (masonry_run st imgs (xs @ ys @ [y])))
      = take (length xs) (snd (masonry_run st imgs (xs @ ys)))"
    by (simp add: masonry_run_lengths)
  with snoc show ?case by simp
qed

lemma masonry_run_nth:
  assumes "k < length xs"
  shows "snd (masonry_run st imgs xs) ! k =
     (let hs = fst (masonry_run st imgs (take k xs));
          c = fst (shortest hs (columnCount imgs));
          d = scaleImagePreservingRatio st (xs ! k) (columnWidth st imgs) (columnWidth st imgs * 2)
      in \<lparr>imageData = xs ! k,
          pos_x = margin (autoFitSettings st)
                    + real c * (columnWidth st imgs + spacing (autoFitSettings st)),
          pos_y = hs ! c, pos_width = dim_width d, pos_height = dim_height d\<rparr>)"
proof -
  have split: "xs = (take k xs @ [xs ! k]) @ drop (Suc k) xs"
    using assms by (simp add: take_Suc_conv_app_nth [symmetric])
  have len: "length (take k xs @ [xs ! k]) = Suc k"
    using assms by simp
  have "snd (masonry_run st imgs xs) ! k
      = take (Suc k) (snd (masonry_run st imgs xs)) ! k"
    by simp
  also have "take (Suc k) (snd (masonry_run st imgs xs))
      = snd (masonry_run st imgs (take k xs @ [xs ! k]))"
    using masonry_run_prefix [of "take k xs @ [xs ! k]" st imgs "drop (Suc k) xs"]
    unfolding len split [symmetric] .
  also have "\<dots> ! k = last (snd (masonry_run st imgs (take k xs @ [xs ! k])))"
    using masonry_run_lengths [of st imgs "take k xs @ [xs ! k]"] len
    by (metis diff_Suc_1 last_conv_nth length_0_conv nat.distinct(1))
  finally show ?thesis
    by (simp add: masonry_run_snoc masonry_step_def Let_def)
qed

lemma masonry_run_heights_Suc:
  assumes "k < length xs"
  shows "fst (masonry_run st imgs (take (Suc k) xs)) =
     (let hs = fst (masonry_run st imgs (take k xs));
          c = fst (shortest hs (columnCount imgs));
          d = scaleImagePreservingRatio st (xs ! k) (columnWidth st imgs) (columnWidth st imgs * 2)
      in hs[c := hs ! c + (dim_height d + spacing (autoFitSettings st))])"
  using assms
  by (simp add: take_Suc_conv_app_nth masonry_run_snoc masonry_step_def Let_def)


lemma set_sortedImages: "set (sortedImages st imgs) = set imgs"
  by (simp add: sortedImages_def)

lemma masonry_pos_heights:
  "map pos_height (snd (masonry_run st imgs xs)) =
     map (\<lambda>img. dim_height (scaleImagePreservingRatio st img (columnWidth st imgs)
            (columnWidth st imgs * 2))) xs"
  by (rule nth_equalityI) (simp_all add: masonry_run_lengths masonry_run_nth Let_def)

lemma balanced_step:
  assumes "0 < n" and "length hs = n"
    and bal: "\<forall>i<n. \<forall>j<n. hs ! i \<le> hs ! j + B"
    and "0 \<le> d" and "d \<le> B" and c: "c = fst (shortest hs n)"
  shows "\<forall>i<n. \<forall>j<n. hs[c := hs ! c + d] ! i \<le> hs[c := hs ! c + d] ! j + B"
proof (intro allI impI)
  fix i j assume i: "i < n" and j: "j < n"
  from shortest_spec [OF assms(1), of hs] c
  have cn: "c < n" and least: "\<forall>j<n. hs ! c \<le> hs ! j" by simp_all
  from bal i j have ij: "hs ! i \<le> hs ! j + B" by simp
  from bal i cn have ic: "hs ! i \<le> hs ! c + B" by simp
  from least j have cj: "hs ! c \<le> hs ! j" by simp
  show "hs[c := hs ! c + d] ! i \<le> hs[c := hs ! c + d] ! j + B"
    using i j cn assms(2,4,5) ij ic cj by (auto simp add: nth_list_update)
qed

lemma masonry_balanced:
  assumes "\<forall>img \<in> set xs.
      0 \<le> dim_height (scaleImagePreservingRatio st img (columnWidth st imgs) (columnWidth st imgs * 2))
            + spacing (autoFitSettings st)
    \<and> dim_height (scaleImagePreservingRatio st img (columnWidth st imgs) (columnWidth st imgs * 2))
            + spacing (autoFitSettings st) \<le> B"
    and "0 \<le> B"
  shows "\<forall>i<columnCount imgs. \<forall>j<columnCount imgs.
     fst (masonry_run st imgs xs) ! i \<le> fst (masonry_run st imgs xs) ! j + B"
  using assms(1)
proof (induction xs rule: rev_induct)
  case Nil
  show ?case using assms(2) by (simp add: masonry_run_def)
next
  case (snoc x xs)
  let ?hs = "fst (masonry_run st imgs xs)"
  let ?d = "dim_height (scaleImagePreservingRatio st x (columnWidth st imgs) (columnWidth st imgs * 2))
            + spacing (autoFitSettings st)"
  have n: "0 < columnCount imgs" using columnCount_bounds [of imgs] by simp
  have len: "length ?hs = columnCount imgs" by (simp add: masonry_run_lengths)
  from snoc have bal: "\<forall>i<columnCount imgs. \<forall>j<columnCount imgs. ?hs ! i \<le> ?hs ! j + B" by simp
  from snoc.prems have d: "0 \<le> ?d" "?d \<le> B" by simp_all
  have "fst (masonry_run st imgs (xs @ [x])) =
      ?hs[fst (shortest ?hs (columnCount imgs)) := ?hs ! fst (shortest ?hs (columnCount imgs)) + ?d]"
    by (simp add: masonry_run_snoc masonry_step_def Let_def)
  then show ?case
    using balanced_step [OF n len bal d refl] by simp
qed

lemma columnCount_three: "columnCount [a, b, c] = 2"
proof -
  have "nat \<lceil>sqrt (real (length [a, b, c]))\<rceil> = 2"
    by (rule ceil_sqrt_eq) simp_all
  then show ?thesis unfolding columnCount_def by simp
qed

lemma columnCount_five: "columnCount (replicate 5 a) = 3"
proof -
  have "nat \<lceil>sqrt (real (length (replicate 5 a)))\<rceil> = 3"
    by (rule ceil_sqrt_eq) simp_all
  then show ?thesis unfolding columnCount_def by simp
qed

lemma shortest_two: "shortest hs 2 = (if hs ! 1 < hs ! 0 then (1, hs ! 1) else (0, hs ! 0))"
  by (simp add: shortest_def upt_rec)

lemma replicate_two: "replicate 2 a = [a, a]"
  by (simp add: numeral_2_eq_2)

lemma replicate_three: "replicate 3 a = [a, a, a]"
  by (simp add: numeral_3_eq_3)

lemma three_masonry:
  "masonry_run new_creator three_images three_images =
     ([665.9375, 15230 / 9],
      [\<lparr>imageData = wide_image, pos_x = 20, pos_y = 20, pos_width = 935, pos_height = 525.9375\<rparr>,
       \<lparr>imageData = tall_image, pos_x = 965, pos_y = 20, pos_width = 935, pos_height = 14960 / 9\<rparr>,
       \<lparr>imageData = banner_image, pos_x = 20, pos_y = 555.9375, pos_width = 1000, pos_height = 100\<rparr>])"
  by (simp add: masonry_run_def masonry_step_def columnWidth_def three_images_def columnCount_three
    shortest_two Let_def scaleImagePreservingRatio_def calculateAspectRatio_def
    new_creator_def default_settings_def wide_image_def tall_image_def banner_image_def
    replicate_two)

lemma replicate_five: "replicate 5 a = [a, a, a, a, a]"
  by (simp add: eval_nat_numeral)

lemma shortest_squares:
  "shortest [20, 20, 20] 3 = (0, 20)"
  "shortest [650, 20, 20] 3 = (1, 20)"
  "shortest [650, 650, 20] 3 = (2, 20)"
  "shortest [650, 650, 650] 3 = (0, 650)"
  "shortest [1280, 650, 650] 3 = (1, 650)"
  by (simp_all add: shortest_def upt_rec eval_nat_numeral)

lemma squares_masonry:
  assumes "originalWidth sq = originalHeight sq" and "0 < originalWidth sq"
  shows "masonry_run new_creator (replicate 5 sq) (replicate 5 sq) =
     ([1280, 1280, 650],
      [\<lparr>imageData = sq, pos_x = 20, pos_y = 20, pos_width = 620, pos_height = 620\<rparr>,
       \<lparr>imageData = sq, pos_x = 650, pos_y = 20, pos_width = 620, pos_height = 620\<rparr>,
       \<lparr>imageData = sq, pos_x = 1280, pos_y = 20, pos_width = 620, pos_height = 620\<rparr>,
       \<lparr>imageData = sq, pos_x = 20, pos_y = 650, pos_width = 620, pos_height = 620\<rparr>,
       \<lparr>imageData = sq, pos_x = 650, pos_y = 650, pos_width = 620, pos_height = 620\<rparr>])"
proof -
  have ratio: "calculateAspectRatio sq = 1"
    using assms by (simp add: calculateAspectRatio_def)
  have width: "columnWidth new_creator (replicate 5 sq) = 620"
    by (simp add: columnWidth_def columnCount_five new_creator_def default_settings_def)
  have scale: "scaleImagePreservingRatio new_creator sq 620 1240 = \<lparr>dim_width = 620, dim_height = 620\<rparr>"
    by (simp add: scaleImagePreservingRatio_def ratio new_creator_def default_settings_def)
  have settings: "margin (autoFitSettings new_creator) = 20" "spacing (autoFitSettings new_creator) = 10"
    by (simp_all add: new_creator_def default_settings_def)
  have step: "masonry_step new_creator 3 620 (hs, ps) sq =
      (hs[fst (shortest hs 3) := hs ! fst (shortest hs 3) + 630],
       ps @ [\<lparr>imageData = sq, pos_x = 20 + real (fst (shortest hs 3)) * 630,
              pos_y = hs ! fst (shortest hs 3), pos_width = 620, pos_height = 620\<rparr>])" for hs ps
    by (simp add: masonry_step_def scale settings Let_def)
  show ?thesis
    unfolding masonry_run_def columnCount_five width settings
    unfolding replicate_five replicate_three
    by (simp add: step shortest_squares)
qed

lemma three_layout:
  "applyMasonryLayout new_creator three_images =
      [\<lparr>imageData = wide_image, pos_x = 20, pos_y = 20, pos_width = 935, pos_height = 525.9375\<rparr>,
       \<lparr>imageData = tall_image, pos_x = 965, pos_y = 20, pos_width = 935, pos_height = 14960 / 9\<rparr>,
       \<lparr>imageData = banner_image, pos_x = 20, pos_y = 555.9375, pos_width = 1000, pos_height = 100\<rparr>]"
proof -
  have "sortedImages new_creator three_images = three_images"
    by (simp add: sortedImages_def new_creator_def default_settings_def)
  then show ?thesis
    by (simp add: applyMasonryLayout_def three_masonry)
qed

text \<open>
  The greedy choice keeps the columns balanced: no column is higher than another by more than
  the largest amount ever added to a column, the height of the tallest placement plus the
  spacing.
\<close>

lemma masonry_heights_balanced:
  assumes "\<forall>img \<in> set imgs. 0 < originalWidth img \<and> 0 < originalHeight img"
    and "0 < minImageSize (autoFitSettings st)"
    and "0 \<le> spacing (autoFitSettings st)"
    and "imgs \<noteq> []"
    and "i < columnCount imgs" and "j < columnCount imgs"
  shows "masonryColumnHeights st imgs ! i - masonryColumnHeights st imgs ! j
           \<le> Max (pos_height ` set (applyMasonryLayout st imgs)) + spacing (autoFitSettings st)"
proof -
  let ?sorted = "sortedImages st imgs"
  let ?h = "\<lambda>img. dim_height (scaleImagePreservingRatio st img (columnWidth st imgs)
            (columnWidth st imgs * 2))"
  let ?B = "Max (pos_height ` set (applyMasonryLayout st imgs)) + spacing (autoFitSettings st)"
  have heights: "pos_height ` set (applyMasonryLayout st imgs) = ?h ` set imgs"
  proof -
    have "set (map pos_height (applyMasonryLayout st imgs)) = set (map ?h ?sorted)"
      by (simp only: applyMasonryLayout_def masonry_pos_heights)
    then show ?thesis by (simp add: set_sortedImages)
  qed
  have pos: "0 < ?h img" if "img \<in> set imgs" for img
    using scale_positive [of img st] assms(1,2) that by simp
  have le: "?h img \<le> Max (?h ` set imgs)" if "img \<in> set imgs" for img
    using that by simp
  have step: "\<forall>img \<in> set ?sorted.
      0 \<le> ?h img + spacing (autoFitSettings st) \<and> ?h img + spacing (autoFitSettings st) \<le> ?B"
    unfolding heights set_sortedImages
    using pos le assms(3) by (simp add: less_imp_le add_nonneg_nonneg)
  from assms(4) obtain img where img: "img \<in> set imgs" by (cases imgs) auto
  have B: "0 \<le> ?B"
    unfolding heights using pos [OF img] le [OF img] assms(3) by simp
  from masonry_balanced [OF step B] assms(5,6)
  have "fst (masonry_run st imgs ?sorted) ! i \<le> fst (masonry_run st imgs ?sorted) ! j + ?B"
    by simp
  then show ?thesis by (simp add: masonryColumnHeights_def)
qed

lemma squares_layout:
  assumes "originalWidth sq = originalHeight sq" and "0 < originalWidth sq"
  shows "masonryColumnHeights new_creator (replicate 5 sq) = [1280, 1280, 650]"
    and "map pos_height (applyMasonryLayout new_creator (replicate 5 sq)) = [620, 620, 620, 620, 620]"
proof -
  have sorted: "sortedImages new_creator (replicate 5 sq) = replicate 5 sq"
    by (simp add: sortedImages_def new_creator_def default_settings_def)
  show "masonryColumnHeights new_creator (replicate 5 sq) = [1280, 1280, 650]"
    by (simp add: masonryColumnHeights_def sorted squares_masonry [OF assms])
  show "map pos_height (applyMasonryLayout new_creator (replicate 5 sq)) = [620, 620, 620, 620, 620]"
    by (simp add: applyMasonryLayout_def sorted squares_masonry [OF assms])
qed

lemma square_image_square:
  "originalWidth square_image = originalHeight square_image" "0 < originalWidth square_image"
  by (simp_all add: square_image_def)

lemma five_squares_tallest:
  "Max (pos_height ` set (applyMasonryLayout new_creator five_squares)) = 620"
proof -
  have "set (map pos_height (applyMasonryLayout new_creator five_squares)) = {620}"
    unfolding five_squares_def squares_layout(2) [OF square_image_square] by simp
  then show ?thesis by simp
qed

subsection \<open>The organic loop\<close>










lemma three_organic:
  "applyOrganicStackLayout new_creator half_random three_images =
      [\<lparr>imageData = wide_image, pos_x = 20, pos_y = 20, pos_width = 935, pos_height = 525.9375\<rparr>,
       \<lparr>imageData = tall_image, pos_x = 965, pos_y = 20, pos_width = 935, pos_height = 14960 / 9\<rparr>,
       \<lparr>imageData = banner_image, pos_x = 20, pos_y = 555.9375, pos_width = 1000, pos_height = 100\<rparr>]"
  unfolding applyOrganicStackLayout_def three_layout
  by (simp add: organic_run_def organic_step_def Let_def half_random_def
    new_creator_def default_settings_def)

section \<open>Properties of the engine in doubles\<close>

subsection \<open>Scaling into a bounding box, in doubles\<close>

text \<open>
  Every result of \<open>scaleImagePreservingRatio_fl\<close> is a pair \<open>(a * r, a)\<close> or \<open>(a, a / r)\<close> with
  one rounded operation on the rounded ratio \<open>r\<close>; the quotient of the pair is therefore within
  a relative distance of \<open>2^-51\<close> of the exact ratio.
\<close>

lemma ratio_fl_pos:
  "0 < originalWidth img \<Longrightarrow> 0 < originalHeight img \<Longrightarrow> 0 < calculateAspectRatio_fl img"
  unfolding calculateAspectRatio_fl_def fdiv_def by (rule fl_pos) simp

lemma scale_fl_forms:
  assumes "0 < minImageSize (autoFitSettings st)"
  shows "\<exists>a>0.
     (dim_width (scaleImagePreservingRatio_fl st img maxWidth maxHeight) = fmul a (calculateAspectRatio_fl img)
        \<and> dim_height (scaleImagePreservingRatio_fl st img maxWidth maxHeight) = a)
   \<or> (dim_width (scaleImagePreservingRatio_fl st img maxWidth maxHeight) = a
        \<and> dim_height (scaleImagePreservingRatio_fl st img maxWidth maxHeight) = fdiv a (calculateAspectRatio_fl img))"
proof -
  let ?m = "minImageSize (autoFitSettings st)"
  let ?r = "calculateAspectRatio_fl img"
  let ?d = "scaleImagePreservingRatio_fl st img maxWidth maxHeight"
  define w1 where "w1 = (if fdiv maxWidth maxHeight > ?r then fmul maxHeight ?r else maxWidth)"
  define h1 where "h1 = (if fdiv maxWidth maxHeight > ?r then maxHeight else fdiv maxWidth ?r)"
  have d: "?d = (if w1 < ?m \<or> h1 < ?m
                 then (if w1 < h1 then \<lparr>dim_width = ?m, dim_height = fdiv ?m ?r\<rparr>
                       else \<lparr>dim_width = fmul ?m ?r, dim_height = ?m\<rparr>)
                 else \<lparr>dim_width = w1, dim_height = h1\<rparr>)"
    by (simp add: scaleImagePreservingRatio_fl_def Let_def w1_def h1_def)
  consider
      (floor_w) "?d = \<lparr>dim_width = ?m, dim_height = fdiv ?m ?r\<rparr>"
    | (floor_h) "?d = \<lparr>dim_width = fmul ?m ?r, dim_height = ?m\<rparr>"
    | (fit_h) "?d = \<lparr>dim_width = fmul maxHeight ?r, dim_height = maxHeight\<rparr>" "?m \<le> maxHeight"
    | (fit_w) "?d = \<lparr>dim_width = maxWidth, dim_height = fdiv maxWidth ?r\<rparr>" "?m \<le> maxWidth"
  proof (cases "w1 < ?m \<or> h1 < ?m")
    case True
    then show ?thesis using that(1,2) d by (cases "w1 < h1") simp_all
  next
    case False
    then have "?d = \<lparr>dim_width = w1, dim_height = h1\<rparr>" "?m \<le> w1" "?m \<le> h1"
      using d by simp_all
    then show ?thesis using that(3,4)
      by (cases "fdiv maxWidth maxHeight > ?r") (simp_all add: w1_def h1_def)
  qed
  then show ?thesis
  proof cases
    case floor_w
    with assms show ?thesis by (intro exI [of _ ?m]) simp
  next
    case floor_h
    with assms show ?thesis by (intro exI [of _ ?m]) simp
  next
    case fit_h
    with assms show ?thesis by (intro exI [of _ maxHeight]) simp
  next
    case fit_w
    with assms show ?thesis by (intro exI [of _ maxWidth]) simp
  qed
qed

lemma scale_fl_rel:
  assumes "0 < originalWidth img" and "0 < originalHeight img"
    and "0 < minImageSize (autoFitSettings st)"
  shows "0 < dim_width (scaleImagePreservingRatio_fl st img maxWidth maxHeight)"
    and "0 < dim_height (scaleImagePreservingRatio_fl st img maxWidth maxHeight)"
    and "\<bar>dim_width (scaleImagePreservingRatio_fl st img maxWidth maxHeight)
            / dim_height (scaleImagePreservingRatio_fl st img maxWidth maxHeight)
          - originalWidth img / originalHeight img\<bar>
         \<le> originalWidth img / originalHeight img / 2 ^ 51"
proof -
  let ?r = "originalWidth img / originalHeight img"
  let ?rh = "calculateAspectRatio_fl img"
  let ?d = "scaleImagePreservingRatio_fl st img maxWidth maxHeight"
  have r: "0 < ?r" using assms(1,2) by simp
  have rh: "0 < ?rh" using assms(1,2) by (rule ratio_fl_pos)
  have lo: "(1 - 1 / 2 ^ 53) * ?r \<le> ?rh" and hi: "?rh \<le> (1 + 1 / 2 ^ 53) * ?r"
    unfolding calculateAspectRatio_fl_def fdiv_def using fl_between [OF r] by simp_all
  from scale_fl_forms [OF assms(3), of img maxWidth maxHeight]
  obtain a where a: "0 < a"
    and forms: "dim_width ?d = fmul a ?rh \<and> dim_height ?d = a
              \<or> dim_width ?d = a \<and> dim_height ?d = fdiv a ?rh"
    by blast
  from forms have "0 < dim_width ?d \<and> 0 < dim_height ?d
      \<and> ((1 - 1 / 2 ^ 53) * ?rh \<le> dim_width ?d / dim_height ?d
           \<and> dim_width ?d / dim_height ?d \<le> (1 + 1 / 2 ^ 53) * ?rh
         \<or> (1 - 1 / 2 ^ 53) * (dim_width ?d / dim_height ?d) \<le> ?rh
           \<and> ?rh \<le> (1 + 1 / 2 ^ 53) * (dim_width ?d / dim_height ?d))"
  proof
    assume "dim_width ?d = fmul a ?rh \<and> dim_height ?d = a"
    then show ?thesis using quot_mul [OF a rh] a by simp
  next
    assume "dim_width ?d = a \<and> dim_height ?d = fdiv a ?rh"
    then show ?thesis using quot_div [OF a rh] a by simp
  qed
  then show "0 < dim_width ?d" and "0 < dim_height ?d"
    and "\<bar>dim_width ?d / dim_height ?d - ?r\<bar> \<le> ?r / 2 ^ 51"
    using near_ratio [OF r lo hi] by blast+
qed

subsection \<open>The masonry loop, in doubles\<close>

lemma masonry_run_fl_snoc:
  "masonry_run_fl st imgs (xs @ [x]) =
     masonry_step_fl st (columnCount imgs) (columnWidth_fl st imgs) (masonry_run_fl st imgs xs) x"
  by (simp add: masonry_run_fl_def)

lemma masonry_run_fl_lengths:
  "length (fst (masonry_run_fl st imgs xs)) = columnCount imgs
   \<and> length (snd (masonry_run_fl st imgs xs)) = length xs"
proof (induction xs rule: rev_induct)
  case Nil
  show ?case by (simp add: masonry_run_fl_def)
next
  case (snoc x xs)
  then show ?case by (simp add: masonry_run_fl_snoc masonry_step_fl_def Let_def)
qed

lemma masonry_run_fl_prefix:
  "take (length xs) (snd (masonry_run_fl st imgs (xs @ ys))) = snd (masonry_run_fl st imgs xs)"
proof (induction ys rule: rev_induct)
  case Nil
  show ?case by (simp add: masonry_run_fl_lengths)
next
  case (snoc y ys)
  obtain p where "snd (masonry_run_fl st imgs (xs @ ys @ [y])) = snd (masonry_run_fl st imgs (xs @ ys)) @ [p]"
    using masonry_run_fl_snoc [of st imgs "xs @ ys" y]
    by (simp add: masonry_step_fl_def Let_def)
  then have "take (length xs) (snd (masonry_run_fl st imgs (xs @ ys @ [y])))
      = take (length xs) (snd (masonry_run_fl st imgs (xs @ ys)))"
    by (simp add: masonry_run_fl_lengths)
  with snoc show ?case by simp
qed

lemma masonry_run_fl_nth:
  assumes "k < length xs"
  shows "snd (masonry_run_fl st imgs xs) ! k =
     (let hs = fst (masonry_run_fl st imgs (take k xs));
          c = fst (shortest hs (columnCount imgs));
          d = scaleImagePreservingRatio_fl st (xs ! k) (columnWidth_fl st imgs)
                (fmul (columnWidth_fl st imgs) 2)
      in \<lparr>imageData = xs ! k,
          pos_x = fadd (margin (autoFitSettings st))
                    (fmul (real c) (fadd (columnWidth_fl st imgs) (spacing (autoFitSettings st)))),
          pos_y = hs ! c, pos_width = dim_width d, pos_height = dim_height d\<rparr>)"
proof -
  have split: "xs = (take k xs @ [xs ! k]) @ drop (Suc k) xs"
    using assms by (simp add: take_Suc_conv_app_nth [symmetric])
  have len: "length (take k xs @ [xs ! k]) = Suc k"
    using assms by simp
  have "snd (masonry_run_fl st imgs xs) ! k
      = take (Suc k) (snd (masonry_run_fl st imgs xs)) ! k"
    by simp
  also have "take (Suc k) (snd (masonry_run_fl st imgs xs))
      = snd (masonry_run_fl st imgs (take k xs @ [xs ! k]))"
    using masonry_run_fl_prefix [of "take k xs @ [xs ! k]" st imgs "drop (Suc k) xs"]
    unfolding len split [symmetric] .
  also have "\<dots> ! k = last (snd (masonry_run_fl st imgs (take k xs @ [xs ! k])))"
    using masonry_run_fl_lengths [of st imgs "take k xs @ [xs ! k]"] len
    by (metis diff_Suc_1 last_conv_nth length_0_conv nat.distinct(1))
  finally show ?thesis
    by (simp add: masonry_run_fl_snoc masonry_step_fl_def Let_def)
qed



lemma set_sortedImages_fl: "set (sortedImages_fl st imgs) = set imgs"
  by (simp add: sortedImages_fl_def)

lemma masonry_fl_pos_heights:
  "map pos_height (snd (masonry_run_fl st imgs xs)) =
     map (\<lambda>img. dim_height (scaleImagePreservingRatio_fl st img (columnWidth_fl st imgs)
            (fmul (columnWidth_fl st imgs) 2))) xs"
  by (rule nth_equalityI) (simp_all add: masonry_run_fl_lengths masonry_run_fl_nth Let_def)

text \<open>
  Rounding is monotone and leaves a double as it is, so the greedy argument survives it: a
  column that is a double does not shrink when a non-negative amount is added, and sums of
  ordered summands are ordered.
\<close>

lemma fadd_grows:
  assumes "fl a = a" and "0 \<le> d"
  shows "a \<le> fadd a d"
proof -
  have "fl a \<le> fl (a + d)" using assms(2) by (intro fl_mono) simp
  then show ?thesis by (simp add: fadd_def assms(1))
qed

lemma fadd_mono:
  assumes "a \<le> b" and "c \<le> d"
  shows "fadd a c \<le> fadd b d"
  unfolding fadd_def using assms by (intro fl_mono) simp

lemma fadd_double: "fl (fadd a b) = fadd a b"
  by (simp add: fadd_def fl_idem)

lemma fadd_nonneg:
  assumes "0 \<le> a" and "0 \<le> b"
  shows "0 \<le> fadd a b"
proof -
  have "fl 0 \<le> fl (a + b)" using assms by (intro fl_mono) simp
  then show ?thesis by (simp add: fadd_def)
qed

text \<open>
  No column is higher than another by more than the height of the tallest placement plus the
  spacing, the two sums being rounded as the code rounds them.
\<close>

lemma balanced_step_fl:
  assumes "0 < n" and "length hs = n"
    and rep: "\<forall>i<n. fl (hs ! i) = hs ! i"
    and bal: "\<forall>i<n. \<forall>j<n. hs ! i \<le> fadd (hs ! j) B"
    and "0 \<le> d" and "d \<le> B" and c: "c = fst (shortest hs n)"
  shows "\<forall>i<n. \<forall>j<n. hs[c := fadd (hs ! c) d] ! i \<le> fadd (hs[c := fadd (hs ! c) d] ! j) B"
    and "\<forall>i<n. fl (hs[c := fadd (hs ! c) d] ! i) = hs[c := fadd (hs ! c) d] ! i"
proof -
  from shortest_spec [OF assms(1), of hs] c
  have cn: "c < n" and least: "\<forall>j<n. hs ! c \<le> hs ! j" by simp_all
  have B: "0 \<le> B" using assms(5,6) by simp
  have grow: "hs ! c \<le> fadd (hs ! c) d"
    using rep cn assms(5) by (intro fadd_grows) simp_all
  show "\<forall>i<n. \<forall>j<n. hs[c := fadd (hs ! c) d] ! i \<le> fadd (hs[c := fadd (hs ! c) d] ! j) B"
  proof (intro allI impI)
    fix i j assume i: "i < n" and j: "j < n"
    from bal i j have ij: "hs ! i \<le> fadd (hs ! j) B" by simp
    from bal i cn have ic: "hs ! i \<le> fadd (hs ! c) B" by simp
    from least j have cj: "hs ! c \<le> hs ! j" by simp
    have cc: "fadd (hs ! c) d \<le> fadd (fadd (hs ! c) d) B"
      using B by (intro fadd_grows fadd_double)
    have cj': "fadd (hs ! c) d \<le> fadd (hs ! j) B"
      using cj assms(6) by (rule fadd_mono)
    have ic': "hs ! i \<le> fadd (fadd (hs ! c) d) B"
    proof -
      have "fadd (hs ! c) B \<le> fadd (fadd (hs ! c) d) B"
        using grow by (intro fadd_mono) simp_all
      with ic show ?thesis by simp
    qed
    show "hs[c := fadd (hs ! c) d] ! i \<le> fadd (hs[c := fadd (hs ! c) d] ! j) B"
      using i j cn assms(2) ij cc cj' ic' by (auto simp add: nth_list_update)
  qed
  show "\<forall>i<n. fl (hs[c := fadd (hs ! c) d] ! i) = hs[c := fadd (hs ! c) d] ! i"
    using rep cn assms(2) by (simp add: nth_list_update fadd_double)
qed

lemma masonry_balanced_fl:
  assumes "\<forall>img \<in> set xs.
      0 \<le> dim_height (scaleImagePreservingRatio_fl st img (columnWidth_fl st imgs)
              (fmul (columnWidth_fl st imgs) 2))
    \<and> dim_height (scaleImagePreservingRatio_fl st img (columnWidth_fl st imgs)
              (fmul (columnWidth_fl st imgs) 2)) \<le> H"
    and "0 \<le> H" and "0 \<le> spacing (autoFitSettings st)"
    and "fl (margin (autoFitSettings st)) = margin (autoFitSettings st)"
  shows "(\<forall>i<columnCount imgs. \<forall>j<columnCount imgs.
            fst (masonry_run_fl st imgs xs) ! i
              \<le> fadd (fst (masonry_run_fl st imgs xs) ! j) (fadd H (spacing (autoFitSettings st))))
       \<and> (\<forall>i<columnCount imgs.
            fl (fst (masonry_run_fl st imgs xs) ! i) = fst (masonry_run_fl st imgs xs) ! i)"
  using assms(1)
proof (induction xs rule: rev_induct)
  case Nil
  have "0 \<le> fadd H (spacing (autoFitSettings st))"
    using assms(2,3) by (rule fadd_nonneg)
  then have "margin (autoFitSettings st)
      \<le> fadd (margin (autoFitSettings st)) (fadd H (spacing (autoFitSettings st)))"
    using assms(4) by (intro fadd_grows)
  then show ?case using assms(4) by (simp add: masonry_run_fl_def)
next
  case (snoc x xs)
  let ?hs = "fst (masonry_run_fl st imgs xs)"
  let ?h = "dim_height (scaleImagePreservingRatio_fl st x (columnWidth_fl st imgs)
              (fmul (columnWidth_fl st imgs) 2))"
  let ?d = "fadd ?h (spacing (autoFitSettings st))"
  let ?B = "fadd H (spacing (autoFitSettings st))"
  have n: "0 < columnCount imgs" using columnCount_bounds [of imgs] by simp
  have len: "length ?hs = columnCount imgs" by (simp add: masonry_run_fl_lengths)
  from snoc have bal: "\<forall>i<columnCount imgs. \<forall>j<columnCount imgs. ?hs ! i \<le> fadd (?hs ! j) ?B"
    and rep: "\<forall>i<columnCount imgs. fl (?hs ! i) = ?hs ! i" by simp_all
  from snoc.prems have h: "0 \<le> ?h" "?h \<le> H" by simp_all
  have d: "0 \<le> ?d" using h(1) assms(3) by (rule fadd_nonneg)
  have dB: "?d \<le> ?B" using h(2) by (intro fadd_mono) simp_all
  have eq: "fst (masonry_run_fl st imgs (xs @ [x])) =
      ?hs[fst (shortest ?hs (columnCount imgs)) := fadd (?hs ! fst (shortest ?hs (columnCount imgs))) ?d]"
    by (simp add: masonry_run_fl_snoc masonry_step_fl_def Let_def)
  show ?case
    unfolding eq using balanced_step_fl [OF n len rep bal d dB refl] by blast
qed

lemma masonry_heights_balanced_fl:
  assumes "\<forall>img \<in> set imgs. 0 < originalWidth img \<and> 0 < originalHeight img"
    and "0 < minImageSize (autoFitSettings st)"
    and "0 \<le> spacing (autoFitSettings st)"
    and "fl (margin (autoFitSettings st)) = margin (autoFitSettings st)"
    and "imgs \<noteq> []"
    and "i < columnCount imgs" and "j < columnCount imgs"
  shows "masonryColumnHeights_fl st imgs ! i
           \<le> fadd (masonryColumnHeights_fl st imgs ! j)
                (fadd (Max (pos_height ` set (applyMasonryLayout_fl st imgs))) (spacing (autoFitSettings st)))"
proof -
  let ?sorted = "sortedImages_fl st imgs"
  let ?h = "\<lambda>img. dim_height (scaleImagePreservingRatio_fl st img (columnWidth_fl st imgs)
            (fmul (columnWidth_fl st imgs) 2))"
  let ?H = "Max (pos_height ` set (applyMasonryLayout_fl st imgs))"
  have heights: "pos_height ` set (applyMasonryLayout_fl st imgs) = ?h ` set imgs"
  proof -
    have "set (map pos_height (applyMasonryLayout_fl st imgs)) = set (map ?h ?sorted)"
      by (simp only: applyMasonryLayout_fl_def masonry_fl_pos_heights)
    then show ?thesis by (simp add: set_sortedImages_fl)
  qed
  have pos: "0 < ?h img" if "img \<in> set imgs" for img
    using scale_fl_rel(2) [of img st] assms(1,2) that by simp
  have le: "?h img \<le> Max (?h ` set imgs)" if "img \<in> set imgs" for img
    using that by simp
  have step: "\<forall>img \<in> set ?sorted. 0 \<le> ?h img \<and> ?h img \<le> ?H"
    unfolding heights set_sortedImages_fl
    using pos le by (simp add: less_imp_le)
  from assms(5) obtain img where img: "img \<in> set imgs" by (cases imgs) auto
  have H: "0 \<le> ?H"
    unfolding heights using pos [OF img] le [OF img] by simp
  from masonry_balanced_fl [OF step H assms(3,4)] assms(6,7)
  have "fst (masonry_run_fl st imgs ?sorted) ! i
      \<le> fadd (fst (masonry_run_fl st imgs ?sorted) ! j) (fadd ?H (spacing (autoFitSettings st)))"
    by simp
  then show ?thesis by (simp add: masonryColumnHeights_fl_def)
qed

subsection \<open>Rounded operations\<close>

text \<open>
  The operations met when the layouts are evaluated on the examples below, each with the
  double it returns.
\<close>

lemma rounded_op_1: "fmul 2 20 = 40"
  unfolding fmul_def by (rule fl_evalI_up [where k = 47 and n = 5629499534213120]) (simp_all add: round_even_def)

lemma rounded_op_2: "fsub 1920 40 = 1880"
  unfolding fsub_def by (rule fl_evalI_up [where k = 42 and n = 8268327440875520]) (simp_all add: round_even_def)

lemma rounded_op_3: "fmul 2 10 = 20"
  unfolding fmul_def by (rule fl_evalI_up [where k = 48 and n = 5629499534213120]) (simp_all add: round_even_def)

lemma rounded_op_4: "fsub 1880 20 = 1860"
  unfolding fsub_def by (rule fl_evalI_up [where k = 42 and n = 8180366510653440]) (simp_all add: round_even_def)

lemma rounded_op_5: "fdiv 1860 3 = 620"
  unfolding fdiv_def by (rule fl_evalI_up [where k = 43 and n = 5453577673768960]) (simp_all add: round_even_def)

lemma rounded_op_6: "fmul 620 2 = 1240"
  unfolding fmul_def by (rule fl_evalI_up [where k = 42 and n = 5453577673768960]) (simp_all add: round_even_def)

lemma rounded_op_7: "fdiv 500 500 = 1"
  unfolding fdiv_def by (rule fl_evalI_up [where k = 52 and n = 4503599627370496]) (simp_all add: round_even_def)

lemma rounded_op_8: "fdiv 620 1240 = 1 / 2"
  unfolding fdiv_def by (rule fl_evalI_up [where k = 53 and n = 4503599627370496]) (simp_all add: round_even_def)

lemma rounded_op_9: "fdiv 620 1 = 620"
  unfolding fdiv_def by (rule fl_evalI_up [where k = 43 and n = 5453577673768960]) (simp_all add: round_even_def)

lemma rounded_op_10: "fadd 620 10 = 630"
  unfolding fadd_def by (rule fl_evalI_up [where k = 43 and n = 5541538603991040]) (simp_all add: round_even_def)

lemma rounded_op_11: "fmul 0 630 = 0"
  unfolding fmul_def by simp

lemma rounded_op_12: "fadd 20 0 = 20"
  unfolding fadd_def by (rule fl_evalI_up [where k = 48 and n = 5629499534213120]) (simp_all add: round_even_def)

lemma rounded_op_13: "fadd 20 630 = 650"
  unfolding fadd_def by (rule fl_evalI_up [where k = 43 and n = 5717460464435200]) (simp_all add: round_even_def)

lemma rounded_op_14: "fmul 1 630 = 630"
  unfolding fmul_def by (rule fl_evalI_up [where k = 43 and n = 5541538603991040]) (simp_all add: round_even_def)

lemma rounded_op_15: "fmul 2 630 = 1260"
  unfolding fmul_def by (rule fl_evalI_up [where k = 42 and n = 5541538603991040]) (simp_all add: round_even_def)

lemma rounded_op_16: "fadd 20 1260 = 1280"
  unfolding fadd_def by (rule fl_evalI_up [where k = 42 and n = 5629499534213120]) (simp_all add: round_even_def)

lemma rounded_op_17: "fadd 650 630 = 1280"
  unfolding fadd_def by (rule fl_evalI_up [where k = 42 and n = 5629499534213120]) (simp_all add: round_even_def)

lemma rounded_op_18: "fmul 1 10 = 10"
  unfolding fmul_def by (rule fl_evalI_up [where k = 49 and n = 5629499534213120]) (simp_all add: round_even_def)

lemma rounded_op_19: "fsub 1880 10 = 1870"
  unfolding fsub_def by (rule fl_evalI_up [where k = 42 and n = 8224346975764480]) (simp_all add: round_even_def)

lemma rounded_op_20: "fdiv 1870 2 = 935"
  unfolding fdiv_def by (rule fl_evalI_up [where k = 43 and n = 8224346975764480]) (simp_all add: round_even_def)

lemma rounded_op_21: "fmul 935 2 = 1870"
  unfolding fmul_def by (rule fl_evalI_up [where k = 42 and n = 8224346975764480]) (simp_all add: round_even_def)

lemma rounded_op_22: "fdiv 561 300 = 2105432825795707 / 1125899906842624"
  unfolding fdiv_def by (rule fl_evalI_up [where k = 52 and n = 8421731303182828]) (simp_all add: round_even_def)

lemma rounded_op_23: "fdiv 935 1870 = 1 / 2"
  unfolding fdiv_def by (rule fl_evalI_up [where k = 53 and n = 4503599627370496]) (simp_all add: round_even_def)

lemma rounded_op_24: "fdiv 935 (2105432825795707 / 1125899906842624) = 8796093022207999 / 17592186044416"
  unfolding fdiv_def by (rule fl_evalI_up [where k = 44 and n = 8796093022207999]) (simp_all add: round_even_def)

lemma rounded_op_25: "fadd 935 10 = 945"
  unfolding fadd_def by (rule fl_evalI_up [where k = 43 and n = 8312307905986560]) (simp_all add: round_even_def)

lemma rounded_op_26: "fmul 0 945 = 0"
  unfolding fmul_def by simp

lemma rounded_op_27: "fadd (8796093022207999 / 17592186044416) 10 = 8972014882652159 / 17592186044416"
  unfolding fadd_def by (rule fl_evalI_up [where k = 44 and n = 8972014882652159]) (simp_all add: round_even_def)

lemma rounded_op_28: "fadd 20 (8972014882652159 / 17592186044416) = 530"
  unfolding fadd_def by (rule fl_evalI_up [where k = 43 and n = 4661929301770240]) (simp_all add: round_even_def)

lemma rounded_op_29: "fdiv 1300 900 = 6505199461757383 / 4503599627370496"
  unfolding fdiv_def by (rule fl_evalI_up [where k = 52 and n = 6505199461757383]) (simp_all add: round_even_def)

lemma rounded_op_30: "fdiv 935 (6505199461757383 / 4503599627370496) = 5693778675529255 / 8796093022208"
  unfolding fdiv_def by (rule fl_evalI_up [where k = 43 and n = 5693778675529255]) (simp_all add: round_even_def)

lemma rounded_op_31: "fadd (5693778675529255 / 8796093022208) 10 = 5781739605751335 / 8796093022208"
  unfolding fadd_def by (rule fl_evalI_up [where k = 43 and n = 5781739605751335]) (simp_all add: round_even_def)

lemma rounded_op_32: "fadd 20 (5781739605751335 / 8796093022208) = 5957661466195495 / 8796093022208"
  unfolding fadd_def by (rule fl_evalI_up [where k = 43 and n = 5957661466195495]) (simp_all add: round_even_def)

lemma rounded_op_33: "fdiv 187 161 = 1307722252047023 / 1125899906842624"
  unfolding fdiv_def by (rule fl_evalI_up [where k = 52 and n = 5230889008188092]) (simp_all add: round_even_def)

lemma rounded_op_34: "fdiv 935 (1307722252047023 / 1125899906842624) = 7080854882877439 / 8796093022208"
  unfolding fdiv_def by (rule fl_evalI_up [where k = 43 and n = 7080854882877439]) (simp_all add: round_even_def)

lemma rounded_op_35: "fadd (7080854882877439 / 8796093022208) 10 = 7168815813099519 / 8796093022208"
  unfolding fadd_def by (rule fl_evalI_up [where k = 43 and n = 7168815813099519]) (simp_all add: round_even_def)

lemma rounded_op_36: "fadd 20 (7168815813099519 / 8796093022208) = 7344737673543679 / 8796093022208"
  unfolding fadd_def by (rule fl_evalI_up [where k = 43 and n = 7344737673543679]) (simp_all add: round_even_def)

lemma rounded_op_37: "fdiv 187 349 = 1206551762633643 / 2251799813685248"
  unfolding fdiv_def by (rule fl_evalI_up [where k = 53 and n = 4826207050534572]) (simp_all add: round_even_def)

lemma rounded_op_38: "fdiv 935 (1206551762633643 / 2251799813685248) = 7674591161876479 / 4398046511104"
  unfolding fdiv_def by (rule fl_evalI_up [where k = 42 and n = 7674591161876479]) (simp_all add: round_even_def)

lemma rounded_op_39: "fmul 1 945 = 945"
  unfolding fmul_def by (rule fl_evalI_up [where k = 43 and n = 8312307905986560]) (simp_all add: round_even_def)

lemma rounded_op_40: "fadd 20 945 = 965"
  unfolding fadd_def by (rule fl_evalI_up [where k = 43 and n = 8488229766430720]) (simp_all add: round_even_def)

lemma rounded_op_41: "fadd (7674591161876479 / 4398046511104) 10 = 7718571626987519 / 4398046511104"
  unfolding fadd_def by (rule fl_evalI_up [where k = 42 and n = 7718571626987519]) (simp_all add: round_even_def)

lemma rounded_op_42: "fadd 20 (7718571626987519 / 4398046511104) = 7806532557209599 / 4398046511104"
  unfolding fadd_def by (rule fl_evalI_up [where k = 42 and n = 7806532557209599]) (simp_all add: round_even_def)

lemma rounded_op_43: "fdiv 748 744 = 2263906264296459 / 2251799813685248"
  unfolding fdiv_def by (rule fl_evalI_up [where k = 52 and n = 4527812528592918]) (simp_all add: round_even_def)

lemma rounded_op_44: "fdiv 935 (2263906264296459 / 2251799813685248) = 930"
  unfolding fdiv_def by (rule fl_evalI_up [where k = 43 and n = 8180366510653440]) (simp_all add: round_even_def)

lemma rounded_op_45: "fadd 930 10 = 940"
  unfolding fadd_def by (rule fl_evalI_up [where k = 43 and n = 8268327440875520]) (simp_all add: round_even_def)

lemma rounded_op_46: "fadd (7344737673543679 / 8796093022208) 940 = 1775"
  unfolding fadd_def by (rule fl_evalI_up [where k = 42 and n = 7806532557209600]) (simp_all add: round_even_def)

lemma rounded_op_47: "fdiv 935 1 = 935"
  unfolding fdiv_def by (rule fl_evalI_up [where k = 43 and n = 8224346975764480]) (simp_all add: round_even_def)

lemma rounded_op_48: "fadd (7806532557209599 / 4398046511104) 945 = 2720"
  unfolding fadd_def by (rule fl_evalI_up [where k = 41 and n = 5981343255101440]) (simp_all add: round_even_def)

lemma rounded_op_49: "fsub 1080 40 = 1040"
  unfolding fsub_def by (rule fl_evalI_up [where k = 42 and n = 4573968371548160]) (simp_all add: round_even_def)

lemma rounded_op_50: "fmul 0 10 = 0"
  unfolding fmul_def by simp

lemma rounded_op_51: "fsub 1880 0 = 1880"
  unfolding fsub_def by (rule fl_evalI_up [where k = 42 and n = 8268327440875520]) (simp_all add: round_even_def)

lemma rounded_op_52: "fdiv 1880 1 = 1880"
  unfolding fdiv_def by (rule fl_evalI_up [where k = 42 and n = 8268327440875520]) (simp_all add: round_even_def)

lemma rounded_op_53: "fsub 1040 0 = 1040"
  unfolding fsub_def by (rule fl_evalI_up [where k = 42 and n = 4573968371548160]) (simp_all add: round_even_def)

lemma rounded_op_54: "fdiv 1040 1 = 1040"
  unfolding fdiv_def by (rule fl_evalI_up [where k = 42 and n = 4573968371548160]) (simp_all add: round_even_def)

lemma rounded_op_55: "fadd 1880 10 = 1890"
  unfolding fadd_def by (rule fl_evalI_up [where k = 42 and n = 8312307905986560]) (simp_all add: round_even_def)

lemma rounded_op_56: "fmul 0 1890 = 0"
  unfolding fmul_def by simp

lemma rounded_op_57: "fadd 1040 10 = 1050"
  unfolding fadd_def by (rule fl_evalI_up [where k = 42 and n = 4617948836659200]) (simp_all add: round_even_def)

lemma rounded_op_58: "fmul 0 1050 = 0"
  unfolding fmul_def by simp

lemma rounded_op_59: "fdiv 10000000000000000 3 = 6666666666666667 / 2"
  unfolding fdiv_def by (rule fl_evalI_up [where k = 1 and n = 6666666666666667]) (simp_all add: round_even_def)

lemma rounded_op_60: "fdiv 1880 1040 = 8141122403323589 / 4503599627370496"
  unfolding fdiv_def by (rule fl_evalI_up [where k = 52 and n = 8141122403323589]) (simp_all add: round_even_def)

lemma rounded_op_61: "fdiv 1880 (6666666666666667 / 2) = 1396396364313909 / 2475880078570760549798248448"
  unfolding fdiv_def by (rule fl_evalI_up [where k = 93 and n = 5585585457255636]) (simp_all add: round_even_def)

lemma rounded_op_62: "fmul 100 (6666666666666667 / 2) = 333333333333333376"
  unfolding fmul_def by (rule fl_evalI_down [where k = 6 and n = 5208333333333334]) (simp_all add: round_even_def)

lemma rounded_op_63: "fsub 1880 333333333333333376 = - 333333333333331520"
  unfolding fsub_def by (rule fl_evalI_down_neg [where k = 6 and n = 5208333333333305]) (simp_all add: round_even_def)

lemma rounded_op_64: "fdiv (- 333333333333331520) 2 = - 166666666666665760"
  unfolding fdiv_def by (rule fl_evalI_down_neg [where k = 5 and n = 5208333333333305]) (simp_all add: round_even_def)

lemma rounded_op_65: "fadd 20 (- 166666666666665760) = - 166666666666665728"
  unfolding fadd_def by (rule fl_evalI_down_neg [where k = 5 and n = 5208333333333304]) (simp_all add: round_even_def)

lemma rounded_op_66: "fsub 1040 100 = 940"
  unfolding fsub_def by (rule fl_evalI_up [where k = 43 and n = 8268327440875520]) (simp_all add: round_even_def)

lemma rounded_op_67: "fdiv 940 2 = 470"
  unfolding fdiv_def by (rule fl_evalI_up [where k = 44 and n = 8268327440875520]) (simp_all add: round_even_def)

lemma rounded_op_68: "fadd 20 470 = 490"
  unfolding fadd_def by (rule fl_evalI_up [where k = 44 and n = 8620171161763840]) (simp_all add: round_even_def)

lemma rounded_op_69: "fdiv 333333333333333376 100 = 3333333333333334"
  unfolding fdiv_def by (rule fl_evalI_up [where k = 1 and n = 6666666666666668]) (simp_all add: round_even_def)

lemma rounded_op_70: "fl (1 / 100) = 5764607523034235 / 576460752303423488"
  by (rule fl_evalI_up [where k = 59 and n = 5764607523034235]) (simp_all add: round_even_def)

lemma rounded_op_71: "fsub (6666666666666667 / 2) 3333333333333334 = - (1 / 2)"
  unfolding fsub_def by (rule fl_evalI_up_neg [where k = 53 and n = 4503599627370496]) (simp_all add: round_even_def)

lemma rounded_op_72: "fdiv 98 200 = 2206763817411543 / 4503599627370496"
  unfolding fdiv_def by (rule fl_evalI_up [where k = 54 and n = 8827055269646172]) (simp_all add: round_even_def)

lemma rounded_op_73: "fl (3 / 10) = 5404319552844595 / 18014398509481984"
  by (rule fl_evalI_up [where k = 54 and n = 5404319552844595]) (simp_all add: round_even_def)

lemma rounded_op_74: "fmul 1880 (5404319552844595 / 18014398509481984) = 564"
  unfolding fmul_def by (rule fl_evalI_up [where k = 43 and n = 4960996464525312]) (simp_all add: round_even_def)

lemma rounded_op_75: "fdiv 98 (2206763817411543 / 4503599627370496) = 200"
  unfolding fdiv_def by (rule fl_evalI_up [where k = 45 and n = 7036874417766400]) (simp_all add: round_even_def)

lemma rounded_op_76: "fadd 20 98 = 118"
  unfolding fadd_def by (rule fl_evalI_up [where k = 46 and n = 8303511812964352]) (simp_all add: round_even_def)

lemma rounded_op_77: "fadd 1880 20 = 1900"
  unfolding fadd_def by (rule fl_evalI_up [where k = 42 and n = 8356288371097600]) (simp_all add: round_even_def)

lemma rounded_op_78: "fadd 98 10 = 108"
  unfolding fadd_def by (rule fl_evalI_up [where k = 46 and n = 7599824371187712]) (simp_all add: round_even_def)

lemma rounded_op_79: "fadd 20 108 = 128"
  unfolding fadd_def by (rule fl_evalI_up [where k = 45 and n = 4503599627370496]) (simp_all add: round_even_def)

lemma rounded_op_80: "fadd 0 98 = 98"
  unfolding fadd_def by (rule fl_evalI_up [where k = 46 and n = 6896136929411072]) (simp_all add: round_even_def)

lemma rounded_op_81: "fdiv 1880 98 = 1349931010755187 / 70368744177664"
  unfolding fdiv_def by (rule fl_evalI_up [where k = 48 and n = 5399724043020748]) (simp_all add: round_even_def)

lemma rounded_op_82: "fmul 98 1 = 98"
  unfolding fmul_def by (rule fl_evalI_up [where k = 46 and n = 6896136929411072]) (simp_all add: round_even_def)

lemma rounded_op_83: "fmul 200 1 = 200"
  unfolding fmul_def by (rule fl_evalI_up [where k = 45 and n = 7036874417766400]) (simp_all add: round_even_def)

lemma rounded_op_84: "fdiv 100 200 = 1 / 2"
  unfolding fdiv_def by (rule fl_evalI_up [where k = 53 and n = 4503599627370496]) (simp_all add: round_even_def)

lemma rounded_op_85: "fsub (2206763817411543 / 4503599627370496) (1 / 2) = - (45035996273705 / 4503599627370496)"
  unfolding fsub_def by (rule fl_evalI_up_neg [where k = 59 and n = 5764607523034240]) (simp_all add: round_even_def)

lemma rounded_op_86: "fmul 1040 (2206763817411543 / 4503599627370496) = 8964978008234393 / 17592186044416"
  unfolding fmul_def by (rule fl_evalI_up [where k = 44 and n = 8964978008234393]) (simp_all add: round_even_def)

lemma rounded_op_87: "fsub 1880 (8964978008234393 / 17592186044416) = 3013541469408461 / 2199023255552"
  unfolding fsub_def by (rule fl_evalI_up [where k = 42 and n = 6027082938816922]) (simp_all add: round_even_def)

lemma rounded_op_88: "fdiv (3013541469408461 / 2199023255552) 2 = 3013541469408461 / 4398046511104"
  unfolding fdiv_def by (rule fl_evalI_up [where k = 43 and n = 6027082938816922]) (simp_all add: round_even_def)

lemma rounded_op_89: "fadd 20 (3013541469408461 / 4398046511104) = 3101502399630541 / 4398046511104"
  unfolding fadd_def by (rule fl_evalI_up [where k = 43 and n = 6203004799261082]) (simp_all add: round_even_def)

lemma rounded_op_90: "fsub 1040 1040 = 0"
  unfolding fsub_def by simp

lemma rounded_op_91: "fdiv 0 2 = 0"
  unfolding fdiv_def by simp

lemma rounded_op_92: "fdiv (8964978008234393 / 17592186044416) 1040 = 2206763817411543 / 4503599627370496"
  unfolding fdiv_def by (rule fl_evalI_up [where k = 54 and n = 8827055269646172]) (simp_all add: round_even_def)

lemma rounded_op_93: "fsub (2206763817411543 / 4503599627370496) (2206763817411543 / 4503599627370496) = 0"
  unfolding fsub_def by simp

lemma rounded_op_94: "fdiv 935 (8796093022207999 / 17592186044416) = 2105432825795707 / 1125899906842624"
  unfolding fdiv_def by (rule fl_evalI_up [where k = 52 and n = 8421731303182828]) (simp_all add: round_even_def)

lemma rounded_op_95: "fsub (2105432825795707 / 1125899906842624) (2105432825795707 / 1125899906842624) = 0"
  unfolding fsub_def by simp

lemma rounded_op_96: "fdiv 935 (7080854882877439 / 8796093022208) = 1307722252047023 / 1125899906842624"
  unfolding fdiv_def by (rule fl_evalI_up [where k = 52 and n = 5230889008188092]) (simp_all add: round_even_def)

lemma rounded_op_97: "fsub (1307722252047023 / 1125899906842624) (1307722252047023 / 1125899906842624) = 0"
  unfolding fsub_def by simp

lemma rounded_op_98: "fdiv 935 (7674591161876479 / 4398046511104) = 1206551762633643 / 2251799813685248"
  unfolding fdiv_def by (rule fl_evalI_up [where k = 53 and n = 4826207050534572]) (simp_all add: round_even_def)

lemma rounded_op_99: "fsub (1206551762633643 / 2251799813685248) (1206551762633643 / 2251799813685248) = 0"
  unfolding fsub_def by simp

lemma rounded_op_100: "fdiv 935 930 = 2263906264296459 / 2251799813685248"
  unfolding fdiv_def by (rule fl_evalI_up [where k = 52 and n = 4527812528592918]) (simp_all add: round_even_def)

lemma rounded_op_101: "fsub (2263906264296459 / 2251799813685248) (2263906264296459 / 2251799813685248) = 0"
  unfolding fsub_def by simp

lemma rounded_op_102: "fdiv 935 935 = 1"
  unfolding fdiv_def by (rule fl_evalI_up [where k = 52 and n = 4503599627370496]) (simp_all add: round_even_def)

lemma rounded_op_103: "fsub 1 1 = 0"
  unfolding fsub_def by simp

lemma rounded_op_104: "fsub 1280 650 = 630"
  unfolding fsub_def by (rule fl_evalI_up [where k = 43 and n = 5541538603991040]) (simp_all add: round_even_def)

lemma rounded_op_105: "fsub 530 20 = 510"
  unfolding fsub_def by (rule fl_evalI_up [where k = 44 and n = 8972014882652160]) (simp_all add: round_even_def)

lemma rounded_op_106: "fdiv 935 (5693778675529255 / 8796093022208) = 813149932719673 / 562949953421312"
  unfolding fdiv_def by (rule fl_evalI_up [where k = 52 and n = 6505199461757384]) (simp_all add: round_even_def)

lemmas rounded_ops =
  rounded_op_1 rounded_op_2 rounded_op_3 rounded_op_4 rounded_op_5 rounded_op_6 rounded_op_7
  rounded_op_8 rounded_op_9 rounded_op_10 rounded_op_11 rounded_op_12 rounded_op_13
  rounded_op_14 rounded_op_15 rounded_op_16 rounded_op_17 rounded_op_18 rounded_op_19
  rounded_op_20 rounded_op_21 rounded_op_22 rounded_op_23 rounded_op_24 rounded_op_25
  rounded_op_26 rounded_op_27 rounded_op_28 rounded_op_29 rounded_op_30 rounded_op_31
  rounded_op_32 rounded_op_33 rounded_op_34 rounded_op_35 rounded_op_36 rounded_op_37
  rounded_op_38 rounded_op_39 rounded_op_40 rounded_op_41 rounded_op_42 rounded_op_43
  rounded_op_44 rounded_op_45 rounded_op_46 rounded_op_47 rounded_op_48 rounded_op_49
  rounded_op_50 rounded_op_51 rounded_op_52 rounded_op_53 rounded_op_54 rounded_op_55
  rounded_op_56 rounded_op_57 rounded_op_58 rounded_op_59 rounded_op_60 rounded_op_61
  rounded_op_62 rounded_op_63 rounded_op_64 rounded_op_65 rounded_op_66 rounded_op_67
  rounded_op_68 rounded_op_69 rounded_op_70 rounded_op_71 rounded_op_72 rounded_op_73
  rounded_op_74 rounded_op_75 rounded_op_76 rounded_op_77 rounded_op_78 rounded_op_79
  rounded_op_80 rounded_op_81 rounded_op_82 rounded_op_83 rounded_op_84 rounded_op_85
  rounded_op_86 rounded_op_87 rounded_op_88 rounded_op_89 rounded_op_90 rounded_op_91
  rounded_op_92 rounded_op_93 rounded_op_94 rounded_op_95 rounded_op_96 rounded_op_97
  rounded_op_98 rounded_op_99 rounded_op_100 rounded_op_101 rounded_op_102 rounded_op_103
  rounded_op_104 rounded_op_105 rounded_op_106

subsection \<open>The layouts of the examples, in doubles\<close>

lemma settings_fl:
  "margin (autoFitSettings new_creator) = 20" "spacing (autoFitSettings new_creator) = 10"
  "minImageSize (autoFitSettings new_creator) = 100" "canvasWidth new_creator = 1920"
  "canvasHeight new_creator = 1080" "prioritizeLargeImages (autoFitSettings new_creator) = False"
  by (simp_all add: new_creator_def default_settings_def)

lemma square_ratio_fl:
  assumes "originalWidth sq = originalHeight sq" and "0 < originalWidth sq"
  shows "calculateAspectRatio_fl sq = 1"
  using assms by (simp add: calculateAspectRatio_fl_def fdiv_def)

lemma squares_masonry_fl:
  assumes "originalWidth sq = originalHeight sq" and "0 < originalWidth sq"
  shows "masonry_run_fl new_creator (replicate 5 sq) (replicate 5 sq) =
     ([1280, 1280, 650],
      [\<lparr>imageData = sq, pos_x = 20, pos_y = 20, pos_width = 620, pos_height = 620\<rparr>,
       \<lparr>imageData = sq, pos_x = 650, pos_y = 20, pos_width = 620, pos_height = 620\<rparr>,
       \<lparr>imageData = sq, pos_x = 1280, pos_y = 20, pos_width = 620, pos_height = 620\<rparr>,
       \<lparr>imageData = sq, pos_x = 20, pos_y = 650, pos_width = 620, pos_height = 620\<rparr>,
       \<lparr>imageData = sq, pos_x = 650, pos_y = 650, pos_width = 620, pos_height = 620\<rparr>])"
proof -
  have width: "columnWidth_fl new_creator (replicate 5 sq) = 620"
    by (simp add: columnWidth_fl_def columnCount_five settings_fl rounded_ops)
  have scale: "scaleImagePreservingRatio_fl new_creator sq 620 1240
      = \<lparr>dim_width = 620, dim_height = 620\<rparr>"
    by (simp add: scaleImagePreservingRatio_fl_def square_ratio_fl [OF assms] settings_fl rounded_ops)
  have step: "masonry_step_fl new_creator 3 620 (hs, ps) sq =
      (hs[fst (shortest hs 3) := fadd (hs ! fst (shortest hs 3)) 630],
       ps @ [\<lparr>imageData = sq, pos_x = fadd 20 (fmul (real (fst (shortest hs 3))) 630),
              pos_y = hs ! fst (shortest hs 3), pos_width = 620, pos_height = 620\<rparr>])" for hs ps
    by (simp add: masonry_step_fl_def scale settings_fl Let_def rounded_ops)
  show ?thesis
    unfolding masonry_run_fl_def columnCount_five width settings_fl
    unfolding replicate_five replicate_three
    by (simp add: step shortest_squares rounded_ops)
qed

lemma squares_layout_fl:
  assumes "originalWidth sq = originalHeight sq" and "0 < originalWidth sq"
  shows "masonryColumnHeights_fl new_creator (replicate 5 sq) = [1280, 1280, 650]"
    and "map pos_height (applyMasonryLayout_fl new_creator (replicate 5 sq)) = [620, 620, 620, 620, 620]"
proof -
  have sorted: "sortedImages_fl new_creator (replicate 5 sq) = replicate 5 sq"
    by (simp add: sortedImages_fl_def settings_fl)
  show "masonryColumnHeights_fl new_creator (replicate 5 sq) = [1280, 1280, 650]"
    by (simp add: masonryColumnHeights_fl_def sorted squares_masonry_fl [OF assms])
  show "map pos_height (applyMasonryLayout_fl new_creator (replicate 5 sq)) = [620, 620, 620, 620, 620]"
    by (simp add: applyMasonryLayout_fl_def sorted squares_masonry_fl [OF assms])
qed

lemma five_squares_tallest_fl:
  "Max (pos_height ` set (applyMasonryLayout_fl new_creator five_squares)) = 620"
proof -
  have "set (map pos_height (applyMasonryLayout_fl new_creator five_squares)) = {620}"
    unfolding five_squares_def squares_layout_fl(2) [OF square_image_square] by simp
  then show ?thesis by simp
qed

lemma columnCount_one: "columnCount [a] = 2"
proof -
  have "nat \<lceil>sqrt (real (length [a]))\<rceil> = 1"
    by (rule ceil_sqrt_eq) simp_all
  then show ?thesis unfolding columnCount_def by simp
qed

lemma photo_masonry_fl:
  "masonry_run_fl new_creator [photo_image] [photo_image] =
     ([530, 20],
      [\<lparr>imageData = photo_image, pos_x = 20, pos_y = 20, pos_width = 935,
        pos_height = 8796093022207999 / 17592186044416\<rparr>])"
proof -
  have width: "columnWidth_fl new_creator [photo_image] = 935"
    by (simp add: columnWidth_fl_def columnCount_one settings_fl rounded_ops)
  have ratio: "calculateAspectRatio_fl photo_image = 2105432825795707 / 1125899906842624"
    by (simp add: calculateAspectRatio_fl_def photo_image_def rounded_ops)
  have scale: "scaleImagePreservingRatio_fl new_creator photo_image 935 1870
      = \<lparr>dim_width = 935, dim_height = 8796093022207999 / 17592186044416\<rparr>"
    by (simp add: scaleImagePreservingRatio_fl_def ratio settings_fl rounded_ops)
  show ?thesis
    unfolding masonry_run_fl_def columnCount_one width settings_fl replicate_two
    by (simp add: masonry_step_fl_def scale settings_fl Let_def shortest_two rounded_ops)
qed

lemma photo_layout_fl:
  "masonryColumnHeights_fl new_creator [photo_image] = [530, 20]"
  "applyMasonryLayout_fl new_creator [photo_image] =
      [\<lparr>imageData = photo_image, pos_x = 20, pos_y = 20, pos_width = 935,
        pos_height = 8796093022207999 / 17592186044416\<rparr>]"
  by (simp_all add: masonryColumnHeights_fl_def applyMasonryLayout_fl_def sortedImages_fl_def
      settings_fl photo_masonry_fl)







subsection \<open>C2: the two steps of \<open>scaleImagePreservingRatio\<close>\<close>









subsection \<open>C3: the scale factor of a row and the per-axis floor\<close>

text \<open>
  Claim C3. When a row is finalized, every image of the row is scaled by the one factor
  \<open>s = max maxScaleDown (min 1 ((availableWidth - (count - 1) * spacing) / sum of the natural
  widths))\<close>, to \<open>naturalWidth * s\<close> by \<open>naturalHeight * s\<close>; the images are laid out from left to
  right, the first at \<open>x = margin\<close> and each next one a scaled width plus \<open>spacing\<close> further;
  the width and the height of the placement are then each raised to \<open>minImageSize\<close> by a
  maximum of their own. This per-axis floor does not keep the ratio: the flow layout gives
  a 1000 x 100 image the rectangle 564 x 100, which fails the ratio check. (The sum of the
  natural widths is taken to be non-zero, as the claim's quotient presupposes.)
\<close>

theorem finalizeNaturalRow_scaling:
  assumes "k < length row" and "sum_list (map naturalWidth row) \<noteq> 0"
  shows "(let sp = spacing (autoFitSettings st); minSize = minImageSize (autoFitSettings st);
             s = max (maxScaleDown (autoFitSettings st))
                   (min 1 ((availableWidth - (real (length row) - 1) * sp)
                             / sum_list (map naturalWidth row)));
             result = finalizeNaturalRow st row rowY availableWidth positions;
             p = result ! (length positions + k)
         in length result = length positions + length row
          \<and> take (length positions) result = positions
          \<and> imageData p = item_image (row ! k)
          \<and> pos_x p = margin (autoFitSettings st)
                + sum_list (map (\<lambda>item. naturalWidth item * s + sp) (take k row))
          \<and> pos_y p = rowY
          \<and> pos_width p = max minSize (naturalWidth (row ! k) * s)
          \<and> pos_height p = max minSize (naturalHeight (row ! k) * s))
       \<and> applyNaturalFlowLayout banner_selected [banner_image] =
           [\<lparr>imageData = banner_image, pos_x = 20, pos_y = 20, pos_width = 564, pos_height = 100\<rparr>]
       \<and> \<not> validateAspectRatioPreservation banner_image \<lparr>dim_width = 564, dim_height = 100\<rparr>"
proof -
  let ?s = "max (maxScaleDown (autoFitSettings st))
      (min 1 ((availableWidth - (real (length row) - 1) * spacing (autoFitSettings st))
                / sum_list (map naturalWidth row)))"
  let ?placed = "snd (foldl (place_item st ?s rowY) (margin (autoFitSettings st), []) row)"
  from assms(1) have ne: "row \<noteq> []" by auto
  have result: "finalizeNaturalRow st row rowY availableWidth positions = positions @ ?placed"
    using ne place_items_append [of st ?s rowY "margin (autoFitSettings st)" positions "[]" row]
    by (simp add: finalizeNaturalRow_def Let_def totalNaturalWidth_sum)
  have len: "length ?placed = length row"
    by (simp add: place_items_length)
  have nth: "(positions @ ?placed) ! (length positions + k) = ?placed ! k"
    by simp
  have general: "let sp = spacing (autoFitSettings st); minSize = minImageSize (autoFitSettings st);
             s = max (maxScaleDown (autoFitSettings st))
                   (min 1 ((availableWidth - (real (length row) - 1) * sp)
                             / sum_list (map naturalWidth row)));
             result = finalizeNaturalRow st row rowY availableWidth positions;
             p = result ! (length positions + k)
         in length result = length positions + length row
          \<and> take (length positions) result = positions
          \<and> imageData p = item_image (row ! k)
          \<and> pos_x p = margin (autoFitSettings st)
                + sum_list (map (\<lambda>item. naturalWidth item * s + sp) (take k row))
          \<and> pos_y p = rowY
          \<and> pos_width p = max minSize (naturalWidth (row ! k) * s)
          \<and> pos_height p = max minSize (naturalHeight (row ! k) * s)"
    unfolding Let_def result nth
    by (simp add: len place_items_nth [OF assms(1)])
  have distorted: "\<not> validateAspectRatioPreservation banner_image \<lparr>dim_width = 564, dim_height = 100\<rparr>"
    by (simp add: validateAspectRatioPreservation_def calculateAspectRatio_def banner_image_def)
  show ?thesis
    by (rule conjI [OF general conjI [OF banner_flow distorted]])
qed

text \<open>
  A row of two items of natural width 1000 in an available width of 1880: the factor is
  \<open>1870 / 2000 = 0.935\<close>, the second item starts at \<open>20 + 935 + 10\<close>, and its height 93.5 is
  raised to 100.
\<close>

theorem finalizeNaturalRow_scaling_witness:
  "(1::nat) < length scaled_row
   \<and> sum_list (map naturalWidth scaled_row) \<noteq> 0
   \<and> finalizeNaturalRow new_creator scaled_row 20 1880 [] ! 1 =
       \<lparr>imageData = strip_image, pos_x = 20 + (1000 * 0.935 + 10), pos_y = 20,
        pos_width = 1000 * 0.935, pos_height = 100\<rparr>"
proof -
  have k: "(1::nat) < length scaled_row" by (simp add: scaled_row_def)
  have total: "sum_list (map naturalWidth scaled_row) \<noteq> 0" by (simp add: scaled_row_def)
  have "finalizeNaturalRow new_creator scaled_row 20 1880 [] ! 1 =
       \<lparr>imageData = strip_image, pos_x = 20 + (1000 * 0.935 + 10), pos_y = 20,
        pos_width = 1000 * 0.935, pos_height = 100\<rparr>"
    using finalizeNaturalRow_scaling [OF k total, of new_creator 1880 20 "[]"]
    by (simp add: Let_def scaled_row_def new_creator_def default_settings_def position.equality)
  with k total show ?thesis by simp
qed

subsection \<open>C4: the proportional grid\<close>

lemma ceil_div_bound:
  assumes "0 < c" and "i < n"
  shows "i div c < nat \<lceil>real n / real c\<rceil>"
proof -
  have "real (i div c) \<le> real i / real c" by (rule of_nat_div_le_of_nat)
  also have "\<dots> < real n / real c"
    using assms by (simp add: divide_strict_right_mono)
  also have "\<dots> \<le> of_int \<lceil>real n / real c\<rceil>" by (rule le_of_int_ceiling)
  finally have "int (i div c) < \<lceil>real n / real c\<rceil>"
    by (metis of_int_less_iff of_int_of_nat_eq)
  then show ?thesis by simp
qed

lemma gridCols_pos: "imgs \<noteq> [] \<Longrightarrow> 0 < gridCols imgs"
  by (simp add: gridCols_def)

lemma grid_nth:
  "i < length imgs \<Longrightarrow> applyProportionalGridLayout st imgs ! i = grid_cell st imgs i"
  by (simp add: applyProportionalGridLayout_def)

lemma grid_length: "length (applyProportionalGridLayout st imgs) = length imgs"
  by (simp add: applyProportionalGridLayout_def)

lemma cells_distinct:
  fixes c :: nat
  assumes "i \<noteq> j"
  shows "(i div c, i mod c) \<noteq> (j div c, j mod c)"
  using assms by (metis Pair_inject div_mult_mod_eq)

lemma gridCols_two: "gridCols [a, b] = 2"
  unfolding gridCols_def by (rule ceil_sqrt_eq) simp_all

lemma gridRows_two: "gridRows [a, b] = 1"
  by (simp add: gridRows_def gridCols_two)

lemma scenario_grid:
  "applyProportionalGridLayout new_creator [wide_image, tall_image] =
     [\<lparr>imageData = wide_image, pos_x = 20, pos_y = 277.03125, pos_width = 935, pos_height = 525.9375\<rparr>,
      \<lparr>imageData = tall_image, pos_x = 1140, pos_y = 20, pos_width = 585, pos_height = 1040\<rparr>]"
  by (simp add: applyProportionalGridLayout_def grid_cell_def baseGridWidth_def baseGridHeight_def
    gridCols_two gridRows_two Let_def scaleImagePreservingRatio_def calculateAspectRatio_def
    new_creator_def default_settings_def wide_image_def tall_image_def upt_rec)

text \<open>
  Claim C4. For a list of \<open>n \<ge> 1\<close> images the grid has \<open>cols = ceil (sqrt n)\<close> columns and
  \<open>rows = ceil (n / cols)\<close> rows; image \<open>i\<close> goes to the cell in row \<open>i div cols\<close> and column
  \<open>i mod cols\<close>, which lies inside the grid, and two different images never share a cell;
  the image is scaled into the cell by \<open>scaleImagePreservingRatio\<close> and centred there
  (\<open>x = cellX + (cellWidth - width) / 2\<close>, likewise \<open>y\<close>). For the images 1600 x 900 and
  900 x 1600 on the 1920 x 1080 canvas with margin 20, spacing 10 and minimum size 100 the
  grid has 2 columns and 1 row, and both placed ratios are within 0.01 of the source ratios.
\<close>

theorem applyProportionalGridLayout_cells:
  assumes "imgs \<noteq> []"
  shows "(let n = length imgs;
              cols = gridCols imgs; rows = gridRows imgs;
              mg = margin (autoFitSettings st); sp = spacing (autoFitSettings st);
              cellWidth = (canvasWidth st - 2 * mg - (real cols - 1) * sp) / real cols;
              cellHeight = (canvasHeight st - 2 * mg - (real rows - 1) * sp) / real rows;
              positions = applyProportionalGridLayout st imgs
          in cols = nat \<lceil>sqrt (real n)\<rceil> \<and> rows = nat \<lceil>real n / real cols\<rceil>
           \<and> length positions = n
           \<and> (\<forall>i<n. i div cols < rows \<and> i mod cols < cols)
           \<and> (\<forall>i<n. \<forall>j<n. i \<noteq> j \<longrightarrow> (i div cols, i mod cols) \<noteq> (j div cols, j mod cols))
           \<and> (\<forall>i<n.
                 let cellX = mg + real (i mod cols) * (cellWidth + sp);
                     cellY = mg + real (i div cols) * (cellHeight + sp);
                     d = scaleImagePreservingRatio st (imgs ! i) cellWidth cellHeight;
                     p = positions ! i
                 in imageData p = imgs ! i
                  \<and> pos_width p = dim_width d \<and> pos_height p = dim_height d
                  \<and> pos_x p = cellX + (cellWidth - dim_width d) / 2
                  \<and> pos_y p = cellY + (cellHeight - dim_height d) / 2))
       \<and> gridCols [wide_image, tall_image] = 2 \<and> gridRows [wide_image, tall_image] = 1
       \<and> (\<forall>p \<in> set (applyProportionalGridLayout new_creator [wide_image, tall_image]).
             \<bar>pos_width p / pos_height p - calculateAspectRatio (imageData p)\<bar> \<le> 0.01)"
proof -
  have cols_pos: "0 < gridCols imgs" using assms by (rule gridCols_pos)
  have inside: "\<forall>i<length imgs. i div gridCols imgs < gridRows imgs \<and> i mod gridCols imgs < gridCols imgs"
    using cols_pos by (simp add: gridRows_def ceil_div_bound)
  have apart: "\<forall>i<length imgs. \<forall>j<length imgs. i \<noteq> j \<longrightarrow>
      (i div gridCols imgs, i mod gridCols imgs) \<noteq> (j div gridCols imgs, j mod gridCols imgs)"
    using cells_distinct by blast
  have cell: "\<forall>i<length imgs. applyProportionalGridLayout st imgs ! i = grid_cell st imgs i"
    by (simp add: grid_nth)
  have general: "let n = length imgs;
              cols = gridCols imgs; rows = gridRows imgs;
              mg = margin (autoFitSettings st); sp = spacing (autoFitSettings st);
              cellWidth = (canvasWidth st - 2 * mg - (real cols - 1) * sp) / real cols;
              cellHeight = (canvasHeight st - 2 * mg - (real rows - 1) * sp) / real rows;
              positions = applyProportionalGridLayout st imgs
          in cols = nat \<lceil>sqrt (real n)\<rceil> \<and> rows = nat \<lceil>real n / real cols\<rceil>
           \<and> length positions = n
           \<and> (\<forall>i<n. i div cols < rows \<and> i mod cols < cols)
           \<and> (\<forall>i<n. \<forall>j<n. i \<noteq> j \<longrightarrow> (i div cols, i mod cols) \<noteq> (j div cols, j mod cols))
           \<and> (\<forall>i<n.
                 let cellX = mg + real (i mod cols) * (cellWidth + sp);
                     cellY = mg + real (i div cols) * (cellHeight + sp);
                     d = scaleImagePreservingRatio st (imgs ! i) cellWidth cellHeight;
                     p = positions ! i
                 in imageData p = imgs ! i
                  \<and> pos_width p = dim_width d \<and> pos_height p = dim_height d
                  \<and> pos_x p = cellX + (cellWidth - dim_width d) / 2
                  \<and> pos_y p = cellY + (cellHeight - dim_height d) / 2)"
    unfolding Let_def
    apply (intro conjI)
          apply (simp add: gridCols_def)
         apply (simp add: gridRows_def)
        apply (rule grid_length)
       apply (rule inside)
      apply (rule apart)
    apply (simp add: cell grid_cell_def baseGridWidth_def baseGridHeight_def Let_def)
    done
  have scenario: "\<forall>p \<in> set (applyProportionalGridLayout new_creator [wide_image, tall_image]).
             \<bar>pos_width p / pos_height p - calculateAspectRatio (imageData p)\<bar> \<le> 0.01"
    unfolding scenario_grid
    by (simp add: calculateAspectRatio_def wide_image_def tall_image_def)
  show ?thesis
    by (rule conjI [OF general conjI [OF gridCols_two conjI [OF gridRows_two scenario]]])
qed

text \<open>The two images of the scenario: the cells (0, 0) and (0, 1), 935 wide and 1040 high.\<close>

theorem applyProportionalGridLayout_cells_witness:
  "[wide_image, tall_image] \<noteq> []
   \<and> applyProportionalGridLayout new_creator [wide_image, tall_image] ! 1
       = \<lparr>imageData = tall_image, pos_x = 20 + 1 * (935 + 10) + (935 - 585) / 2,
          pos_y = 20 + 0 * (1040 + 10) + (1040 - 1040) / 2, pos_width = 585, pos_height = 1040\<rparr>
   \<and> (1::nat) div gridCols [wide_image, tall_image] < gridRows [wide_image, tall_image]
   \<and> (1::nat) mod gridCols [wide_image, tall_image] < gridCols [wide_image, tall_image]"
proof -
  have ne: "[wide_image, tall_image] \<noteq> []" by simp
  show ?thesis
    using applyProportionalGridLayout_cells [OF ne, of new_creator]
    by (simp add: scenario_grid gridCols_two gridRows_two)
qed

subsection \<open>C5: the masonry layout\<close>




subsection \<open>C6: the organic stack and the canvas bounds\<close>




subsection \<open>C7: the balance of the masonry columns\<close>

text \<open>
  Claim C7 says that the final column heights differ pairwise by less than the height of the
  tallest placed image, and that for five equal squares under the default configuration
  (three columns) no column exceeds another by more than one image height. A column grows
  by the image's height plus \<open>spacing\<close>, so the claim fails already in its own scenario: the
  five squares are placed 620 high, the columns end at 1280, 1280 and 650, and the first
  exceeds the third by 630, which is more than 620. All these numbers are doubles, and no
  operation on them rounds.
\<close>

theorem masonry_column_balance_fl_counterexample:
  "five_squares \<noteq> []
   \<and> columnCount five_squares = 3
   \<and> masonryColumnHeights_fl new_creator five_squares ! 0 = 1280
   \<and> masonryColumnHeights_fl new_creator five_squares ! 2 = 650
   \<and> Max (pos_height ` set (applyMasonryLayout_fl new_creator five_squares)) = 620
   \<and> \<not> (masonryColumnHeights_fl new_creator five_squares ! 0
           - masonryColumnHeights_fl new_creator five_squares ! 2
         \<le> Max (pos_height ` set (applyMasonryLayout_fl new_creator five_squares)))
   \<and> \<not> (fsub (masonryColumnHeights_fl new_creator five_squares ! 0)
            (masonryColumnHeights_fl new_creator five_squares ! 2)
         \<le> Max (pos_height ` set (applyMasonryLayout_fl new_creator five_squares)))"
proof -
  have hs: "masonryColumnHeights_fl new_creator five_squares = [1280, 1280, 650]"
    unfolding five_squares_def by (rule squares_layout_fl(1) [OF square_image_square])
  have cols: "columnCount five_squares = 3"
    unfolding five_squares_def by (rule columnCount_five)
  have ne: "five_squares \<noteq> []" by (simp add: five_squares_def)
  show ?thesis
    unfolding hs five_squares_tallest_fl cols using ne by (simp add: rounded_ops)
qed

text \<open>
  Claim C7 as amended. For a non-empty list of images whose dimensions lie between 1 and
  \<open>2^31\<close>, a minimum size in that range, a spacing and a margin between 0 and \<open>2^31\<close> (the
  margin being a double) and a column width between 1 and \<open>2^30\<close>, no final column height
  exceeds another one plus the height of the tallest placed image plus \<open>spacing\<close>, where the
  two sums are the rounded sums \<open>heights[j] + (tallest + spacing)\<close> of the code. For five equal
  squares under the default configuration there are 3 columns, every image is placed 620
  high and the columns end at 1280, 1280 and 650: one column exceeds another by 630, one
  image height plus the spacing.
\<close>

theorem masonry_column_balance_fl:
  assumes "\<forall>img \<in> set imgs. 1 \<le> originalWidth img \<and> originalWidth img \<le> 2 ^ 31
                            \<and> 1 \<le> originalHeight img \<and> originalHeight img \<le> 2 ^ 31"
    and "1 \<le> minImageSize (autoFitSettings st)" and "minImageSize (autoFitSettings st) \<le> 2 ^ 31"
    and "0 \<le> spacing (autoFitSettings st)" and "spacing (autoFitSettings st) \<le> 2 ^ 31"
    and "0 \<le> margin (autoFitSettings st)" and "margin (autoFitSettings st) \<le> 2 ^ 31"
    and "fl (margin (autoFitSettings st)) = margin (autoFitSettings st)"
    and "1 \<le> columnWidth_fl st imgs" and "columnWidth_fl st imgs \<le> 2 ^ 30"
    and "imgs \<noteq> []"
    and "i < columnCount imgs" and "j < columnCount imgs"
  shows "masonryColumnHeights_fl st imgs ! i
           \<le> fadd (masonryColumnHeights_fl st imgs ! j)
                (fadd (Max (pos_height ` set (applyMasonryLayout_fl st imgs)))
                   (spacing (autoFitSettings st)))
       \<and> (originalWidth sq = originalHeight sq \<and> 1 \<le> originalWidth sq \<and> originalWidth sq \<le> 2 ^ 31 \<longrightarrow>
            columnCount (replicate 5 sq) = 3
          \<and> map pos_height (applyMasonryLayout_fl new_creator (replicate 5 sq)) = [620, 620, 620, 620, 620]
          \<and> masonryColumnHeights_fl new_creator (replicate 5 sq) = [1280, 1280, 650])"
proof -
  have dims: "\<forall>img \<in> set imgs. 0 < originalWidth img \<and> 0 < originalHeight img"
    using assms(1) by fastforce
  have minsize: "0 < minImageSize (autoFitSettings st)"
    using assms(2) by simp
  have squares: "columnCount (replicate 5 sq) = 3
          \<and> map pos_height (applyMasonryLayout_fl new_creator (replicate 5 sq)) = [620, 620, 620, 620, 620]
          \<and> masonryColumnHeights_fl new_creator (replicate 5 sq) = [1280, 1280, 650]"
    if "originalWidth sq = originalHeight sq" and "1 \<le> originalWidth sq"
  proof -
    from that(2) have "0 < originalWidth sq" by simp
    with that(1) show ?thesis
      using columnCount_five [of sq] squares_layout_fl [of sq] by simp
  qed
  show ?thesis
    using masonry_heights_balanced_fl [OF dims minsize assms(4,8,11,12,13)] squares
    by blast
qed

text \<open>
  One 561 x 300 image under the default configuration: two columns, the image 935 wide and
  \<open>499.99999999999994\<close> high; the columns end at 530 and 20. The rounded sum
  \<open>20 + (499.99999999999994 + 10)\<close> is 530, whereas the exact sum
  \<open>499.99999999999994 + 10\<close> is less than the difference 510 of the two columns.
\<close>

theorem masonry_column_balance_fl_witness:
  "1 \<le> originalWidth photo_image \<and> originalWidth photo_image \<le> 2 ^ 31
   \<and> 1 \<le> originalHeight photo_image \<and> originalHeight photo_image \<le> 2 ^ 31
   \<and> 1 \<le> minImageSize (autoFitSettings new_creator)
   \<and> minImageSize (autoFitSettings new_creator) \<le> 2 ^ 31
   \<and> 0 \<le> spacing (autoFitSettings new_creator) \<and> spacing (autoFitSettings new_creator) \<le> 2 ^ 31
   \<and> 0 \<le> margin (autoFitSettings new_creator) \<and> margin (autoFitSettings new_creator) \<le> 2 ^ 31
   \<and> fl (margin (autoFitSettings new_creator)) = margin (autoFitSettings new_creator)
   \<and> 1 \<le> columnWidth_fl new_creator [photo_image]
   \<and> columnWidth_fl new_creator [photo_image] \<le> 2 ^ 30
   \<and> [photo_image] \<noteq> []
   \<and> (0::nat) < columnCount [photo_image] \<and> (1::nat) < columnCount [photo_image]
   \<and> masonryColumnHeights_fl new_creator [photo_image] ! 0
        \<le> fadd (masonryColumnHeights_fl new_creator [photo_image] ! 1)
             (fadd (Max (pos_height ` set (applyMasonryLayout_fl new_creator [photo_image])))
                (spacing (autoFitSettings new_creator)))
   \<and> masonryColumnHeights_fl new_creator [photo_image] = [530, 20]
   \<and> Max (pos_height ` set (applyMasonryLayout_fl new_creator [photo_image]))
        = 8796093022207999 / 17592186044416
   \<and> \<not> (masonryColumnHeights_fl new_creator [photo_image] ! 0
           - masonryColumnHeights_fl new_creator [photo_image] ! 1
         \<le> Max (pos_height ` set (applyMasonryLayout_fl new_creator [photo_image]))
             + spacing (autoFitSettings new_creator))
   \<and> originalWidth square_image = originalHeight square_image
   \<and> 1 \<le> originalWidth square_image \<and> originalWidth square_image \<le> 2 ^ 31
   \<and> masonryColumnHeights_fl new_creator (replicate 5 square_image) = [1280, 1280, 650]"
proof -
  have dims: "\<forall>img \<in> set [photo_image]. 1 \<le> originalWidth img \<and> originalWidth img \<le> 2 ^ 31
                            \<and> 1 \<le> originalHeight img \<and> originalHeight img \<le> 2 ^ 31"
    by (simp add: photo_image_def)
  have minsize: "1 \<le> minImageSize (autoFitSettings new_creator)"
    "minImageSize (autoFitSettings new_creator) \<le> 2 ^ 31"
    and sp: "0 \<le> spacing (autoFitSettings new_creator)" "spacing (autoFitSettings new_creator) \<le> 2 ^ 31"
    and mg: "0 \<le> margin (autoFitSettings new_creator)" "margin (autoFitSettings new_creator) \<le> 2 ^ 31"
    by (simp_all add: settings_fl)
  have rep: "fl (margin (autoFitSettings new_creator)) = margin (autoFitSettings new_creator)"
    by (simp add: settings_fl fl_numeral)
  have width: "columnWidth_fl new_creator [photo_image] = 935"
    by (simp add: columnWidth_fl_def columnCount_one settings_fl rounded_ops)
  have cw: "1 \<le> columnWidth_fl new_creator [photo_image]"
    "columnWidth_fl new_creator [photo_image] \<le> 2 ^ 30"
    by (simp_all add: width)
  have ne: "[photo_image] \<noteq> []" by simp
  have i: "(0::nat) < columnCount [photo_image]" and j: "(1::nat) < columnCount [photo_image]"
    by (simp_all add: columnCount_one)
  have sq: "originalWidth square_image = originalHeight square_image"
    "1 \<le> originalWidth square_image" "originalWidth square_image \<le> 2 ^ 31"
    by (simp_all add: square_image_def)
  note inst = masonry_column_balance_fl [OF dims minsize sp mg rep cw ne i j, of square_image]
  have bound: "masonryColumnHeights_fl new_creator [photo_image] ! 0
        \<le> fadd (masonryColumnHeights_fl new_creator [photo_image] ! 1)
             (fadd (Max (pos_height ` set (applyMasonryLayout_fl new_creator [photo_image])))
                (spacing (autoFitSettings new_creator)))"
    by (rule inst [THEN conjunct1])
  have squares: "masonryColumnHeights_fl new_creator (replicate 5 square_image) = [1280, 1280, 650]"
    using inst [THEN conjunct2] sq by simp
  have tallest: "Max (pos_height ` set (applyMasonryLayout_fl new_creator [photo_image]))
        = 8796093022207999 / 17592186044416"
    by (simp add: photo_layout_fl)
  have exact: "\<not> (masonryColumnHeights_fl new_creator [photo_image] ! 0
           - masonryColumnHeights_fl new_creator [photo_image] ! 1
         \<le> Max (pos_height ` set (applyMasonryLayout_fl new_creator [photo_image]))
             + spacing (autoFitSettings new_creator))"
    unfolding tallest by (simp add: photo_layout_fl settings_fl)
  have d: "1 \<le> originalWidth photo_image" "originalWidth photo_image \<le> 2 ^ 31"
    "1 \<le> originalHeight photo_image" "originalHeight photo_image \<le> 2 ^ 31"
    by (simp_all add: photo_image_def)
  show ?thesis
    using d minsize sp mg rep cw ne i j bound photo_layout_fl(1) tallest exact sq squares
    by blast
qed

subsection \<open>C8: descriptors with a non-positive dimension\<close>

lemma negative_selected_images: "selectedImageData negative_selected = [negative_image]"
  by (simp add: selectedImageData_def negative_selected_def new_creator_def negative_image_def)

lemma negative_grid:
  "applyProportionalGridLayout negative_selected [negative_image] =
     [\<lparr>imageData = negative_image, pos_x = 910, pos_y = 590, pos_width = 100, pos_height = - 100\<rparr>]"
  by (simp add: applyProportionalGridLayout_def grid_cell_def baseGridWidth_def baseGridHeight_def
    gridCols_one gridRows_one Let_def scaleImagePreservingRatio_def calculateAspectRatio_def
    negative_selected_def new_creator_def default_settings_def negative_image_def)

lemma negative_result:
  "applyNaturalAutoFitLayout negative_selected half_random =
     Some [\<lparr>imageData = negative_image, pos_x = 910, pos_y = 590, pos_width = 100, pos_height = - 100\<rparr>]"
proof -
  have layout: "currentLayout negative_selected = Some ''proportional-grid''"
    and sel: "selectedImages negative_selected \<noteq> {}"
    by (simp_all add: negative_selected_def)
  show ?thesis
    by (simp add: applyNaturalAutoFitLayout_def layout sel run_layout_def negative_selected_images
      negative_grid Let_def)
qed

text \<open>
  Claim C8 says that a descriptor with \<open>originalWidth \<le> 0\<close> or \<open>originalHeight \<le> 0\<close> is
  rejected before any ratio is computed. It is not: for an image of width -100 and height
  100, selected alone under the proportional grid, \<open>calculateAspectRatio\<close> returns -1 (no
  division by zero occurs anywhere on this path), the placement 100 x -100 has that ratio,
  passes the check and is returned.
\<close>

theorem invalid_descriptor_counterexample:
  "originalWidth negative_image \<le> 0
   \<and> calculateAspectRatio negative_image = - 1
   \<and> applyNaturalAutoFitLayout negative_selected half_random =
       Some [\<lparr>imageData = negative_image, pos_x = 910, pos_y = 590, pos_width = 100, pos_height = - 100\<rparr>]"
  using negative_result by (simp add: negative_image_def calculateAspectRatio_def)

text \<open>
  Claim C8 as amended. No descriptor is rejected: \<open>calculateAspectRatio\<close> divides the width
  by the height whatever their values, and whenever a layout is chosen and the selection is
  not empty, \<open>applyNaturalAutoFitLayout\<close> returns placements for exactly the selected images,
  whatever their dimensions.
\<close>

theorem no_descriptor_rejected:
  assumes "currentLayout st = Some layout" and "layout \<noteq> []" and "selectedImages st \<noteq> {}"
  shows "calculateAspectRatio img = originalWidth img / originalHeight img
       \<and> (\<exists>ps. applyNaturalAutoFitLayout st rand = Some ps
              \<and> mset (map imageData ps) = mset (selectedImageData st))"
proof -
  have "mset (map imageData (applyProportionalGridLayout st (selectedImageData st)))
      = mset (selectedImageData st)"
    by (simp only: applyProportionalGridLayout_images)
  then have "\<exists>ps. applyNaturalAutoFitLayout st rand = Some ps
              \<and> mset (map imageData ps) = mset (selectedImageData st)"
    using assms run_layout_images [of st rand layout "selectedImageData st"]
    by (simp add: applyNaturalAutoFitLayout_def Let_def)
  then show ?thesis by (simp add: calculateAspectRatio_def)
qed

theorem no_descriptor_rejected_witness:
  "currentLayout negative_selected = Some ''proportional-grid''
   \<and> selectedImages negative_selected \<noteq> {}
   \<and> (\<exists>ps. applyNaturalAutoFitLayout negative_selected half_random = Some ps
          \<and> mset (map imageData ps) = mset [negative_image])"
proof -
  have layout: "currentLayout negative_selected = Some ''proportional-grid''"
    and sel: "selectedImages negative_selected \<noteq> {}"
    by (simp_all add: negative_selected_def)
  have name: "''proportional-grid'' \<noteq> []" by simp
  show ?thesis
    using no_descriptor_rejected [OF layout name sel, of negative_image half_random] layout sel
    by (simp add: negative_selected_images)
qed

subsection \<open>C9: the empty image list\<close>

text \<open>
  Claim C9. On the empty image list each of the five strategies (flow, masonry, proportional
  grid, aspect-grouped, organic) returns the empty list of placements. None of the five
  functions has a failing path, so this is their whole result.
\<close>

theorem empty_input:
  "applyNaturalFlowLayout st [] = []
   \<and> applyMasonryLayout st [] = []
   \<and> applyProportionalGridLayout st [] = []
   \<and> applyAspectGroupedLayout st [] = []
   \<and> applyOrganicStackLayout st rand [] = []"
  by (simp add: applyNaturalFlowLayout_def applyMasonryLayout_def masonry_run_def
    applyProportionalGridLayout_def applyAspectGroupedLayout_def groupImagesByAspectRatio_def
    applyOrganicStackLayout_def organic_run_def sortedImages_def Let_def)

theorem empty_input_witness:
  "applyNaturalFlowLayout new_creator [] = []
   \<and> applyMasonryLayout new_creator [] = []
   \<and> applyProportionalGridLayout new_creator [] = []
   \<and> applyAspectGroupedLayout new_creator [] = []
   \<and> applyOrganicStackLayout new_creator half_random [] = []"
  using empty_input [of new_creator half_random] by simp

subsection \<open>C10: one placement per image\<close>

text \<open>
  Claim C10. For every image list each of the five strategies returns exactly one placement
  per input image: the result is as long as the input, and the images that the placements
  refer to are, counted with multiplicity, the input images (none dropped, none placed twice).
\<close>

theorem one_placement_per_image:
  "length (applyNaturalFlowLayout st imgs) = length imgs
   \<and> mset (map imageData (applyNaturalFlowLayout st imgs)) = mset imgs
   \<and> length (applyMasonryLayout st imgs) = length imgs
   \<and> mset (map imageData (applyMasonryLayout st imgs)) = mset imgs
   \<and> length (applyProportionalGridLayout st imgs) = length imgs
   \<and> mset (map imageData (applyProportionalGridLayout st imgs)) = mset imgs
   \<and> length (applyAspectGroupedLayout st imgs) = length imgs
   \<and> mset (map imageData (applyAspectGroupedLayout st imgs)) = mset imgs
   \<and> length (applyOrganicStackLayout st rand imgs) = length imgs
   \<and> mset (map imageData (applyOrganicStackLayout st rand imgs)) = mset imgs"
proof -
  have flow: "mset (map imageData (applyNaturalFlowLayout st imgs)) = mset imgs"
    by (simp only: applyNaturalFlowLayout_images mset_sortedImages)
  have masonry: "mset (map imageData (applyMasonryLayout st imgs)) = mset imgs"
    by (simp only: applyMasonryLayout_images mset_sortedImages)
  have grid: "mset (map imageData (applyProportionalGridLayout st imgs)) = mset imgs"
    by (simp only: applyProportionalGridLayout_images)
  have grouped: "mset (map imageData (applyAspectGroupedLayout st imgs)) = mset imgs"
    by (rule applyAspectGroupedLayout_images)
  have organic: "mset (map imageData (applyOrganicStackLayout st rand imgs)) = mset imgs"
    by (simp only: applyOrganicStackLayout_images mset_sortedImages)
  have len: "length ps = length imgs" if "mset (map imageData ps) = mset imgs" for ps
    using mset_eq_length [OF that] by simp
  show ?thesis
    using flow masonry grid grouped organic
    by (intro conjI len) assumption+
qed

theorem one_placement_per_image_witness:
  "length (applyNaturalFlowLayout new_creator [wide_image, tall_image]) = length [wide_image, tall_image]
   \<and> mset (map imageData (applyNaturalFlowLayout new_creator [wide_image, tall_image])) = mset [wide_image, tall_image]
   \<and> length (applyMasonryLayout new_creator [wide_image, tall_image]) = length [wide_image, tall_image]
   \<and> mset (map imageData (applyMasonryLayout new_creator [wide_image, tall_image])) = mset [wide_image, tall_image]
   \<and> length (applyProportionalGridLayout new_creator [wide_image, tall_image]) = length [wide_image, tall_image]
   \<and> mset (map imageData (applyProportionalGridLayout new_creator [wide_image, tall_image])) = mset [wide_image, tall_image]
   \<and> length (applyAspectGroupedLayout new_creator [wide_image, tall_image]) = length [wide_image, tall_image]
   \<and> mset (map imageData (applyAspectGroupedLayout new_creator [wide_image, tall_image])) = mset [wide_image, tall_image]
   \<and> length (applyOrganicStackLayout new_creator half_random [wide_image, tall_image]) = length [wide_image, tall_image]
   \<and> mset (map imageData (applyOrganicStackLayout new_creator half_random [wide_image, tall_image])) = mset [wide_image, tall_image]"
  by (rule one_placement_per_image)

end
